theory Spec2Isabelle
  imports Main "HOL-Library.Multiset"
begin

section \<open>Data model\<close>

text \<open>
  A Python \<^verbatim>\<open>dict\<close> is an association list in insertion order; the keys of a
  well-formed dict are pairwise distinct. Counts are Python integers.
\<close>

type_synonym 'k dict = "('k \<times> int) list"

definition dict_keys :: "'k dict \<Rightarrow> 'k list" where
  "dict_keys d = map fst d"

definition dict_contains :: "'k dict \<Rightarrow> 'k \<Rightarrow> bool" where
  "dict_contains d key = (key \<in> set (dict_keys d))"

definition dict_get :: "'k dict \<Rightarrow> 'k \<Rightarrow> int option" where
  "dict_get d key = map_of d key"

definition well_formed :: "'k dict \<Rightarrow> bool" where
  "well_formed d = distinct (dict_keys d)"

section \<open>The diff of two count mappings\<close>

text \<open>
  \<^verbatim>\<open>
  def dict_compare(dict_a: dict, dict_b: dict):
      if dict_b is None: return dict_a
      elif dict_a is None: return dict_b
      else: return {key: dict_a[key] for key in dict_a.keys()
                    if key not in dict_b or dict_a[key] > dict_b[key]}
  \<close>
  \<open>None\<close> of the option type is Python's \<^verbatim>\<open>None\<close>. The comprehension reads
  \<^verbatim>\<open>dict_a[key]\<close> only for keys of \<^verbatim>\<open>dict_a\<close>, and \<^verbatim>\<open>dict_b[key]\<close> only
  behind the membership test, so no lookup can raise.
\<close>

definition selected :: "'k dict \<Rightarrow> 'k dict \<Rightarrow> 'k \<Rightarrow> bool" where
  "selected a b key =
     (\<not> dict_contains b key \<or>
      (case (dict_get a key, dict_get b key) of
         (Some va, Some vb) \<Rightarrow> vb < va
       | _ \<Rightarrow> False))"

definition dict_compare :: "'k dict option \<Rightarrow> 'k dict option \<Rightarrow> 'k dict option" where
  "dict_compare dict_a dict_b =
     (case dict_b of
        None \<Rightarrow> dict_a
      | Some b \<Rightarrow>
          (case dict_a of
             None \<Rightarrow> dict_b
           | Some a \<Rightarrow>
               Some (List.map_filter
                 (\<lambda>key. case dict_get a key of
                           None \<Rightarrow> None
                         | Some va \<Rightarrow> if selected a b key then Some (key, va) else None)
                 (dict_keys a))))"

section \<open>Exceptions, courses and the catalog index\<close>

text \<open>
  Values of \<open>exn\<close> are instances of Python's \<^verbatim>\<open>Exception\<close> class, the ones an
  \<^verbatim>\<open>except Exception\<close> clause catches; \<open>LoginError\<close> is the one the login loop
  names. A call that may raise returns \<open>exn + 'a\<close>, with \<open>Inl\<close> the raised exception.
  Signals that are not instances of \<^verbatim>\<open>Exception\<close> (interpreter exit, keyboard
  interrupt) are outside the model.
\<close>

datatype exn = LoginError | Error string

type_synonym path = "string list"

text \<open>
  The \<^verbatim>\<open>Course\<close> class is imported by the program; these are the attributes it reads.
\<close>

record course =
  year :: string
  semester_type :: string
  semester :: string
  ID :: string
  name :: string

text \<open>
  The catalog index returned by \<^verbatim>\<open>parse_index\<close>: a dict of counts per category
  that also answers \<^verbatim>\<open>get_catID\<close>. The class is imported by the program, so the
  lookup of a category identifier is a parameter of the index and may raise.
\<close>

record catcount =
  counts :: "string dict"
  get_catID :: "string \<Rightarrow> exn + string"

type_synonym synctask = "string \<times> string \<times> course \<times> path"

type_synonym clipfile = string

type_synonym filedesc = "path \<times> string \<times> int \<times> int"

section \<open>The world of the collaborators\<close>

text \<open>
  Every call to an imported handler is recorded as an event, in the order the calls are
  made. Console and log output is not part of the state.
\<close>

datatype event =
    ParseIndex string string string string
  | Mkdir path
  | ParseCache path
  | StashCache path "string dict"
  | CountFiles path
  | ParseDocs string string string string string
  | GetFile clipfile path
  | DownloadFile filedesc
  | CommitCache

record world =
  server_index :: "string \<Rightarrow> string \<Rightarrow> string \<Rightarrow> string \<Rightarrow> exn + catcount"
  server_docs :: "string \<Rightarrow> string \<Rightarrow> string \<Rightarrow> string \<Rightarrow> string \<Rightarrow> exn + clipfile list"
  local_file :: "clipfile \<Rightarrow> path \<Rightarrow> exn + filedesc option"
  transfer :: "filedesc \<Rightarrow> exn + unit"
  inventory :: "path \<Rightarrow> string dict"
  folders :: "path set"
  cache :: "path \<rightharpoonup> string dict"
  trace :: "event list"

definition record_event :: "event \<Rightarrow> world \<Rightarrow> world" where
  "record_event e w = w\<lparr>trace := trace w @ [e]\<rparr>"

text \<open>
  Modelled from the spec: \<^verbatim>\<open>parse_index\<close> (handlers.HTML_parser), one blocking
  network round trip that yields the course's catalog index or fails.
\<close>

definition parse_index ::
  "string \<Rightarrow> string \<Rightarrow> string \<Rightarrow> string \<Rightarrow> world \<Rightarrow> (exn + catcount) \<times> world" where
  "parse_index y st s i w = (server_index w y st s i, record_event (ParseIndex y st s i) w)"

text \<open>
  \<^verbatim>\<open>full_path.mkdir(parents=True, exist_ok=True)\<close>: the folder and every missing
  parent exist afterwards.
\<close>

definition mkdir :: "path \<Rightarrow> world \<Rightarrow> world" where
  "mkdir p w =
     record_event (Mkdir p)
       (w\<lparr>folders := folders w \<union> set (map (\<lambda>n. take n p) [1..<Suc (length p)])\<rparr>)"

text \<open>
  Modelled from the spec: \<^verbatim>\<open>parse_cache\<close> (handlers.cache_handler), which reads
  the persisted record of the course folder and falls back to the empty mapping when
  there is none; it never fails the run.
\<close>

definition parse_cache :: "path \<Rightarrow> catcount \<Rightarrow> string \<Rightarrow> world \<Rightarrow> string dict \<times> world" where
  "parse_cache p idx nm w =
     ((case cache w p of None \<Rightarrow> [] | Some d \<Rightarrow> d), record_event (ParseCache p) w)"

text \<open>
  Modelled from the spec: \<^verbatim>\<open>stash_cache\<close> (handlers.cache_handler), which
  overwrites the persisted record of the course folder to match the live index.
\<close>

definition stash_cache :: "catcount \<Rightarrow> path \<Rightarrow> world \<Rightarrow> world" where
  "stash_cache idx p w =
     record_event (StashCache p (counts idx)) (w\<lparr>cache := (cache w)(p \<mapsto> counts idx)\<rparr>)"

text \<open>
  Modelled from the spec: \<^verbatim>\<open>count_files_in_subfolders\<close> (handlers.file_handler),
  the number of files found under each category subfolder of the course folder.
\<close>

definition count_files_in_subfolders :: "path \<Rightarrow> world \<Rightarrow> string dict \<times> world" where
  "count_files_in_subfolders p w = (inventory w p, record_event (CountFiles p) w)"

text \<open>
  Modelled from the spec: \<^verbatim>\<open>parse_docs\<close> (handlers.HTML_parser), the ordered
  listing of a category's remote files, or a failure.
\<close>

definition parse_docs ::
  "string \<Rightarrow> string \<Rightarrow> string \<Rightarrow> string \<Rightarrow> string \<Rightarrow> world \<Rightarrow> (exn + clipfile list) \<times> world" where
  "parse_docs y st s i catID w =
     (server_docs w y st s i catID, record_event (ParseDocs y st s i catID) w)"

text \<open>
  Modelled from the spec: \<^verbatim>\<open>get_file\<close> (handlers.file_handler), which resolves a
  remote entry against the target folder: \<open>None\<close> when the file is already there, a
  descriptor to download otherwise, or a failure.
\<close>

definition get_file :: "clipfile \<Rightarrow> path \<Rightarrow> world \<Rightarrow> (exn + filedesc option) \<times> world" where
  "get_file file folder w = (local_file w file folder, record_event (GetFile file folder) w)"

text \<open>
  Modelled from the spec: \<^verbatim>\<open>download_file\<close> (handlers.file_handler), the transfer
  of one file, which fails with an exception or returns nothing the program uses.
\<close>

definition download_file :: "filedesc \<Rightarrow> world \<Rightarrow> (exn + unit list option) \<times> world" where
  "download_file f w =
     ((case transfer w f of Inl e \<Rightarrow> Inl e | Inr _ \<Rightarrow> Inr None), record_event (DownloadFile f) w)"

text \<open>
  Modelled from the spec: \<^verbatim>\<open>commit_cache\<close> (handlers.cache_handler), the end of
  the run's cache lifecycle; the staged records are already written.
\<close>

definition commit_cache :: "world \<Rightarrow> world" where
  "commit_cache w = record_event CommitCache w"

section \<open>Stage one: the categories of a course that need a sync task\<close>

text \<open>\<^verbatim>\<open>str.upper\<close> on the ASCII letters a semester type is written with.\<close>

definition upper_char :: "char \<Rightarrow> char" where
  "upper_char ch =
     (let n = (of_char ch :: nat) in if 97 \<le> n \<and> n \<le> 122 then char_of (n - 32) else ch)"

definition upper :: "string \<Rightarrow> string" where
  "upper s = map upper_char s"

text \<open>
  \<^verbatim>\<open>
  for category,count in diff.items():
      _subcats.append((category,index.get_catID(category),course,full_path))
  \<close>
  A lookup that raises leaves the loop, and the function, with the exception.
\<close>

fun append_subcats ::
  "catcount \<Rightarrow> course \<Rightarrow> path \<Rightarrow> string dict \<Rightarrow> synctask list \<Rightarrow> exn + synctask list" where
  "append_subcats idx c full_path [] subcats = Inr subcats"
| "append_subcats idx c full_path ((category, cnt) # rest) subcats =
     (case get_catID idx category of
        Inl e \<Rightarrow> Inl e
      | Inr catID \<Rightarrow>
          append_subcats idx c full_path rest (subcats @ [(category, catID, c, full_path)]))"

text \<open>Python's truth value of a dict or \<^verbatim>\<open>None\<close>: false when absent or empty.\<close>

definition truthy :: "'k dict option \<Rightarrow> bool" where
  "truthy d = (case d of None \<Rightarrow> False | Some xs \<Rightarrow> xs \<noteq> [])"

definition items :: "'k dict option \<Rightarrow> 'k dict" where
  "items d = (case d of None \<Rightarrow> [] | Some xs \<Rightarrow> xs)"

definition course_path :: "path \<Rightarrow> course \<Rightarrow> path" where
  "course_path p c = (p @ [year c]) @ [semester c @ upper (semester_type c)] @ [name c]"

text \<open>
  \<^verbatim>\<open>
  def search_cats_in_course(path, course):
      path = path / course.year
      index = parse_index(course.year, course.semester_type, course.semester, course.ID)
      if not index:
          log.info(...)
      else:
          full_semester = course.semester+course.semester_type.upper()
          full_path = path / full_semester / course.name
          full_path.mkdir(parents=True, exist_ok=True)
          cachedict = parse_cache(full_path, index, course.name)
          cachediff = dict_compare(index, cachedict)
          _subcats = []
          if not cachediff: ...
          else:
              stash_cache(index,full_path)
              for category,count in cachediff.items(): _subcats.append(...)
          folderdict = count_files_in_subfolders(full_path)
          folderdiff = dict_compare(cachedict, folderdict)
          if not folderdiff: ...
          else:
              for category,count in folderdiff.items(): _subcats.append(...)
          return _subcats
  \<close>
  The function has no handler of its own: an exception of \<^verbatim>\<open>parse_index\<close> or
  \<^verbatim>\<open>get_catID\<close> leaves it. With an empty index it falls off its end and
  returns \<^verbatim>\<open>None\<close>.
\<close>

definition search_cats_in_course ::
  "path \<Rightarrow> course \<Rightarrow> world \<Rightarrow> (exn + synctask list option) \<times> world" where
  "search_cats_in_course p c w =
     (case parse_index (year c) (semester_type c) (semester c) (ID c) w of
        (Inl e, w1) \<Rightarrow> (Inl e, w1)
      | (Inr idx, w1) \<Rightarrow>
          (if counts idx = [] then (Inr None, w1)
           else
             (let full_path = course_path p c;
                  w2 = mkdir full_path w1;
                  cachedict = fst (parse_cache full_path idx (name c) w2);
                  w3 = snd (parse_cache full_path idx (name c) w2);
                  cachediff = dict_compare (Some (counts idx)) (Some cachedict);
                  w4 = (if truthy cachediff then stash_cache idx full_path w3 else w3);
                  folderdict = fst (count_files_in_subfolders full_path w4);
                  w5 = snd (count_files_in_subfolders full_path w4);
                  folderdiff = dict_compare (Some cachedict) (Some folderdict)
              in (case (if truthy cachediff
                        then append_subcats idx c full_path (items cachediff) []
                        else Inr []) of
                    Inl e \<Rightarrow> (Inl e, w4)
                  | Inr subcats1 \<Rightarrow>
                      (if truthy folderdiff
                       then (case append_subcats idx c full_path (items folderdiff) subcats1 of
                               Inl e \<Rightarrow> (Inl e, w5)
                             | Inr subcats2 \<Rightarrow> (Inr (Some subcats2), w5))
                       else (Inr (Some subcats1), w5))))))"

section \<open>Stage two: the files of a category that need a download\<close>

text \<open>
  \<^verbatim>\<open>
  for file in table:
      folder = full_path / category
      _file = get_file(file,folder)
      if _file is not None:
          _files.append(_file)
  \<close>
\<close>

fun resolve_files ::
  "path \<Rightarrow> string \<Rightarrow> clipfile list \<Rightarrow> filedesc list \<Rightarrow> world \<Rightarrow> (exn + filedesc list) \<times> world" where
  "resolve_files full_path category [] files w = (Inr files, w)"
| "resolve_files full_path category (file # table) files w =
     (case get_file file (full_path @ [category]) w of
        (Inl e, w1) \<Rightarrow> (Inl e, w1)
      | (Inr None, w1) \<Rightarrow> resolve_files full_path category table files w1
      | (Inr (Some f), w1) \<Rightarrow> resolve_files full_path category table (files @ [f]) w1)"

text \<open>
  The body of the \<^verbatim>\<open>try\<close> block of \<^verbatim>\<open>search_files_in_category\<close>.
\<close>

definition search_files_body ::
  "string \<Rightarrow> string \<Rightarrow> course \<Rightarrow> path \<Rightarrow> world \<Rightarrow> (exn + filedesc list option) \<times> world" where
  "search_files_body category catID c full_path w =
     (case parse_docs (year c) (semester_type c) (semester c) (ID c) catID w of
        (Inl e, w1) \<Rightarrow> (Inl e, w1)
      | (Inr table, w1) \<Rightarrow>
          (case resolve_files full_path category table [] w1 of
             (Inl e, w2) \<Rightarrow> (Inl e, w2)
           | (Inr files, w2) \<Rightarrow> (Inr (Some files), w2)))"

text \<open>
  \<^verbatim>\<open>
  def search_files_in_category(category, catID, course, full_path):
      try:
          table = parse_docs(...)
          ...
          return _files
      except Exception as ex:
          log.error(...)
          pass
  \<close>
  The handler logs and falls off the end of the function, which then returns
  \<^verbatim>\<open>None\<close>.
\<close>

definition search_files_in_category ::
  "string \<Rightarrow> string \<Rightarrow> course \<Rightarrow> path \<Rightarrow> world \<Rightarrow> (exn + filedesc list option) \<times> world" where
  "search_files_in_category category catID c full_path w =
     (case search_files_body category catID c full_path w of
        (Inl ex, w1) \<Rightarrow> (Inr None, w1)
      | (Inr files, w1) \<Rightarrow> (Inr files, w1))"

section \<open>The concurrent executor\<close>

text \<open>
  The pool decides in which order the submitted calls take effect and in which order
  their futures complete. An order is a list of choices: each step takes one of the
  elements still pending (the choice modulo their number; the first one when the
  choices have run out), so every list of choices gives a permutation.
\<close>

function arrange :: "nat list \<Rightarrow> 'a list \<Rightarrow> 'a list" where
  "arrange choices [] = []"
| "arrange choices (x # xs) =
     (let i = (case choices of [] \<Rightarrow> 0 | ch # _ \<Rightarrow> ch mod length (x # xs))
      in ((x # xs) ! i) # arrange (tl choices) (take i (x # xs) @ drop (Suc i) (x # xs)))"
  by pat_completeness auto
termination
  by (relation "measure (\<lambda>(choices, pending). length pending)") (auto split: list.splits)

text \<open>
  \<^verbatim>\<open>futures = {pool.submit(worker_function, *args): args for args in items}\<close>:
  one call per element of \<^verbatim>\<open>items\<close>. Each call is run as one step on the shared
  world, and its future holds what the call returned or raised. A worker returns a list
  or \<^verbatim>\<open>None\<close>, as the annotations of the program's workers say.
\<close>

fun run_workers ::
  "('a \<Rightarrow> 'w \<Rightarrow> (exn + 'r list option) \<times> 'w) \<Rightarrow> 'a list \<Rightarrow> 'w \<Rightarrow>
     ('a \<times> (exn + 'r list option)) list \<times> 'w" where
  "run_workers worker [] w = ([], w)"
| "run_workers worker (args # rest) w =
     (case worker args w of
        (res, w1) \<Rightarrow>
          (case run_workers worker rest w1 of
             (futures, w2) \<Rightarrow> ((args, res) # futures, w2)))"

text \<open>
  The body of the \<^verbatim>\<open>try\<close> block: \<^verbatim>\<open>future.result()\<close> returns the call's
  result or raises its exception again; a result that is not \<^verbatim>\<open>None\<close> extends
  \<^verbatim>\<open>results\<close>.
\<close>

definition try_result :: "(exn + 'r list option) \<Rightarrow> 'r list \<Rightarrow> exn + 'r list" where
  "try_result future results =
     (case future of
        Inl e \<Rightarrow> Inl e
      | Inr None \<Rightarrow> Inr results
      | Inr (Some result) \<Rightarrow> Inr (results @ result))"

text \<open>
  \<^verbatim>\<open>
  for future in cf.as_completed(futures):
      args = futures[future]
      try: ...
      except Exception as e:
          log.error(f"Erro a processar {args}: {e}")
  \<close>
  The second accumulator is what the handler reports: the arguments with the exception.
\<close>

fun collect ::
  "('a \<times> (exn + 'r list option)) list \<Rightarrow> 'r list \<Rightarrow> ('a \<times> exn) list \<Rightarrow>
     exn + 'r list \<times> ('a \<times> exn) list" where
  "collect [] results reported = Inr (results, reported)"
| "collect ((args, future) # rest) results reported =
     (case try_result future results of
        Inl e \<Rightarrow> collect rest results (reported @ [(args, e)])
      | Inr results' \<Rightarrow> collect rest results' reported)"

text \<open>
  \<^verbatim>\<open>
  def threadpool_execute(worker_function, items, max_workers=cfg.MAX_THREADS):
      results = []
      with cf.ThreadPoolExecutor(max_workers=max_workers) as pool:
          futures = {...}
          for future in cf.as_completed(futures): ...
      return results
  \<close>
  The pool's constructor raises \<^verbatim>\<open>ValueError\<close> when \<^verbatim>\<open>max_workers\<close> is not
  positive. \<open>started\<close> and \<open>completed\<close> are the scheduler's choices. The result also
  carries the reported failures and the calls that were made, in the order they ran.
\<close>

definition threadpool_execute ::
  "('a \<Rightarrow> 'w \<Rightarrow> (exn + 'r list option) \<times> 'w) \<Rightarrow> 'a list \<Rightarrow> int \<Rightarrow> nat list \<Rightarrow> nat list \<Rightarrow> 'w \<Rightarrow>
     (exn + 'r list \<times> ('a \<times> exn) list \<times> 'a list) \<times> 'w" where
  "threadpool_execute worker_function its max_workers started completed w =
     (if max_workers \<le> 0 then (Inl (Error ''max_workers must be greater than 0''), w)
      else
        (case run_workers worker_function (arrange started its) w of
           (futures, w1) \<Rightarrow>
             (case collect (arrange completed futures) [] [] of
                Inl e \<Rightarrow> (Inl e, w1)
              | Inr (results, reported) \<Rightarrow> (Inr (results, reported, map fst futures), w1))))"

section \<open>The run: login, then the three stages\<close>

text \<open>
  \<^verbatim>\<open>
  valid_login = False
  while not valid_login:
      try:
          if username is None and not force_relogin:
              user = get_login(cfg.username, cfg.password)
          else:
              user = get_login(username)
          valid_login = True
      except LoginError:
          continue
  \<close>
  \<^verbatim>\<open>get_login\<close> is imported and asks the user, so its answer depends on the
  attempt: it is a parameter that takes the attempt's number first. The loop may run
  forever, so the model returns an option: \<open>None\<close> when it never leaves the loop,
  otherwise the outcome and the number of calls made.
\<close>

partial_function (option) login_loop ::
  "(nat \<Rightarrow> string option \<Rightarrow> string option \<Rightarrow> exn + 'u) \<Rightarrow> string option \<Rightarrow> string option \<Rightarrow> nat \<Rightarrow>
     ((exn + 'u) \<times> nat) option" where
  "login_loop get_login user_arg password_arg n =
     (case get_login n user_arg password_arg of
        Inr user \<Rightarrow> Some (Inr user, Suc n)
      | Inl e \<Rightarrow>
          (if e = LoginError then login_loop get_login user_arg password_arg (Suc n)
           else Some (Inl e, Suc n)))"

definition main_login ::
  "string option \<Rightarrow> bool \<Rightarrow> string option \<Rightarrow> string option \<Rightarrow>
     (nat \<Rightarrow> string option \<Rightarrow> string option \<Rightarrow> exn + 'u) \<Rightarrow> ((exn + 'u) \<times> nat) option" where
  "main_login username force_relogin cfg_username cfg_password get_login =
     (if username = None \<and> \<not> force_relogin
      then login_loop get_login cfg_username cfg_password 0
      else login_loop get_login username None 0)"

text \<open>The scheduler's choices for the three pools of a run.\<close>

record scheduling =
  started1 :: "nat list"
  completed1 :: "nat list"
  started2 :: "nat list"
  completed2 :: "nat list"
  started3 :: "nat list"
  completed3 :: "nat list"

text \<open>
  \<^verbatim>\<open>
  subcats = threadpool_execute(search_cats_in_course, [(path, course) for course in courses])
  files = threadpool_execute(search_files_in_category, subcats)
  if len(files) != 0:
      _ = threadpool_execute(download_file, files, max_workers=4)
  commit_cache()
  \<close>
  \<open>MAX_THREADS\<close> is the configured size of the first two pools.
\<close>

definition main_stages ::
  "int \<Rightarrow> scheduling \<Rightarrow> path \<Rightarrow> course list \<Rightarrow> world \<Rightarrow> (exn + filedesc list) \<times> world" where
  "main_stages MAX_THREADS sch p courses w =
     (case threadpool_execute (\<lambda>(p', c). search_cats_in_course p' c)
             (map (\<lambda>c. (p, c)) courses) MAX_THREADS (started1 sch) (completed1 sch) w of
        (Inl e, w1) \<Rightarrow> (Inl e, w1)
      | (Inr (subcats, _), w1) \<Rightarrow>
          (case threadpool_execute
                  (\<lambda>(category, catID, c, full_path).
                      search_files_in_category category catID c full_path)
                  subcats MAX_THREADS (started2 sch) (completed2 sch) w1 of
             (Inl e, w2) \<Rightarrow> (Inl e, w2)
           | (Inr (files, _), w2) \<Rightarrow>
               (case (if files \<noteq> []
                      then threadpool_execute download_file files 4
                             (started3 sch) (completed3 sch) w2
                      else (Inr ([], [], []), w2)) of
                  (Inl e, w3) \<Rightarrow> (Inl e, w3)
                | (Inr _, w3) \<Rightarrow> (Inr files, commit_cache w3))))"

section \<open>Vocabulary of the properties\<close>

text \<open>
  The world after a sequence of calls of a worker, each call starting in the world the
  previous one left.
\<close>

definition world_after :: "('a \<Rightarrow> 'w \<Rightarrow> 'o \<times> 'w) \<Rightarrow> 'a list \<Rightarrow> 'w \<Rightarrow> 'w" where
  "world_after worker calls w = foldl (\<lambda>w' args. snd (worker args w')) w calls"

text \<open>What a finished call adds to the aggregate: its result when it returned one.\<close>

definition contribution :: "(exn + 'r list option) \<Rightarrow> 'r list" where
  "contribution future = (case future of Inr (Some result) \<Rightarrow> result | _ \<Rightarrow> [])"

text \<open>What a finished call adds to the report: its arguments and exception when it raised.\<close>

definition failure :: "'a \<times> (exn + 'r list option) \<Rightarrow> ('a \<times> exn) list" where
  "failure future = (case snd future of Inl e \<Rightarrow> [(fst future, e)] | Inr _ \<Rightarrow> [])"

text \<open>The events of the stages: staging the cache, and resolving or fetching files.\<close>

fun is_stash :: "event \<Rightarrow> bool" where
  "is_stash (StashCache p d) = True"
| "is_stash _ = False"

fun is_fetch :: "event \<Rightarrow> bool" where
  "is_fetch (ParseDocs y st s i catID) = True"
| "is_fetch (GetFile file folder) = True"
| "is_fetch (DownloadFile f) = True"
| "is_fetch _ = False"

text \<open>The events a function adds to the trace of a world.\<close>

definition new_events :: "world \<Rightarrow> world \<Rightarrow> event list" where
  "new_events w w' = drop (length (trace w)) (trace w')"

text \<open>The arguments the login loop passes to \<^verbatim>\<open>get_login\<close> on every attempt.\<close>

definition login_args ::
  "string option \<Rightarrow> bool \<Rightarrow> string option \<Rightarrow> string option \<Rightarrow> string option \<times> string option" where
  "login_args username force_relogin cfg_username cfg_password =
     (if username = None \<and> \<not> force_relogin then (cfg_username, cfg_password)
      else (username, None))"

section \<open>Example inputs\<close>

text \<open>Concrete inputs on which the theorems below are instantiated.\<close>

definition live_counts :: "string dict" where
  "live_counts = [(''Slides'', 3), (''Exercises'', 1), (''Labs'', 2)]"

definition cached_counts :: "string dict" where
  "cached_counts = [(''Slides'', 3), (''Labs'', 1)]"

definition example_course :: course where
  "example_course =
     \<lparr>year = ''2024'', semester_type = ''s'', semester = ''1'', ID = ''11154'', name = ''AED''\<rparr>"

definition example_path :: path where
  "example_path = [''CLIP'', ''2024'', ''1S'', ''AED'']"

definition example_index :: "string dict \<Rightarrow> catcount" where
  "example_index d = \<lparr>counts = d, get_catID = (\<lambda>category. Inr (''id-'' @ category))\<rparr>"

text \<open>
  A world whose server answers with the index \<open>live\<close>, whose persisted record is
  \<open>cached\<close> and whose course folder holds \<open>on_disk\<close>. Every listing has two files,
  and none of them is on disk.
\<close>

definition example_world :: "string dict \<Rightarrow> string dict option \<Rightarrow> string dict \<Rightarrow> world" where
  "example_world live cached on_disk =
     \<lparr>server_index = (\<lambda>y st s i. Inr (example_index live)),
      server_docs = (\<lambda>y st s i catID. Inr [catID @ ''/a.pdf'', catID @ ''/b.pdf'']),
      local_file = (\<lambda>file folder. Inr (Some (folder @ [file], file, 10, 0))),
      transfer = (\<lambda>f. Inr ()),
      inventory = (\<lambda>p. on_disk),
      folders = {},
      cache = (\<lambda>p. cached),
      trace = []\<rparr>"

text \<open>
  A worker on a counter: it raises on 2, returns \<^verbatim>\<open>None\<close> on 3 and a list of two
  numbers otherwise; every call increments the counter.
\<close>

definition example_worker :: "nat \<Rightarrow> nat \<Rightarrow> (exn + nat list option) \<times> nat" where
  "example_worker a n =
     (if a = 2 then Inl (Error ''boom'')
      else if a = 3 then Inr None
      else Inr (Some [a, 10 * a]), Suc n)"

text \<open>
  Three situations of the example course. In \<open>drift_world\<close> the server has three
  slides, the cache recorded two and one is on disk. In \<open>removed_world\<close> the server
  lists no documents any more, the cache recorded three slides and one is on disk. In
  \<open>deleted_world\<close> server and cache agree on three slides and one is on disk.
\<close>

definition drift_world :: world where
  "drift_world = example_world [(''Slides'', 3)] (Some [(''Slides'', 2)]) [(''Slides'', 1)]"

definition removed_world :: world where
  "removed_world = example_world [] (Some [(''Slides'', 3)]) [(''Slides'', 1)]"

definition deleted_world :: world where
  "deleted_world = example_world [(''Slides'', 3)] (Some [(''Slides'', 3)]) [(''Slides'', 1)]"

text \<open>
  A world where the server gained a category and a slide since the cache was written,
  and the folder still holds what the cache recorded.
\<close>

definition grown_world :: world where
  "grown_world =
     example_world [(''Slides'', 3), (''Exercises'', 1)] (Some [(''Slides'', 2)]) [(''Slides'', 2)]"

definition slides_task :: synctask where
  "slides_task = (''Slides'', ''id-Slides'', example_course, example_path)"

definition exercises_task :: synctask where
  "exercises_task = (''Exercises'', ''id-Exercises'', example_course, example_path)"

text \<open>
  Two worlds where the second stage fails: the listing of every category cannot be
  read, or the second file of a listing cannot be resolved.
\<close>

definition broken_listing_world :: world where
  "broken_listing_world =
     drift_world\<lparr>server_docs := (\<lambda>y st s i catID. Inl (Error ''timeout''))\<rparr>"

definition broken_file_world :: world where
  "broken_file_world =
     drift_world\<lparr>local_file := (\<lambda>file folder.
        if file = ''id-Slides/b.pdf'' then Inl (Error ''unreadable'')
        else Inr (Some (folder @ [file], file, 10, 0)))\<rparr>"

text \<open>Choices of the scheduler for a run.\<close>

definition example_scheduling :: scheduling where
  "example_scheduling =
     \<lparr>started1 = [], completed1 = [], started2 = [1], completed2 = [],
      started3 = [], completed3 = [1]\<rparr>"

text \<open>
  A login that rejects every attempt, and one that accepts the third attempt.
\<close>

definition rejecting_login :: "nat \<Rightarrow> string option \<Rightarrow> string option \<Rightarrow> exn + string" where
  "rejecting_login n u pw = Inl LoginError"

definition third_time_login :: "nat \<Rightarrow> string option \<Rightarrow> string option \<Rightarrow> exn + string" where
  "third_time_login n u pw = (if n < 2 then Inl LoginError else Inr ''session'')"

text \<open>A world whose server cannot be reached when the index is read.\<close>

definition offline_world :: world where
  "offline_world = drift_world\<lparr>server_index := (\<lambda>y st s i. Inl (Error ''offline''))\<rparr>"

section \<open>Properties of the diff\<close>

lemma map_of_map_filter_keys:
  "map_of (List.map_filter
             (\<lambda>key. case map_of a key of
                       None \<Rightarrow> None
                     | Some va \<Rightarrow> if P key then Some (key, va) else None)
             ks) k
   = (if k \<in> set ks \<and> P k then map_of a k else None)"
proof (induction ks)
  case Nil
  show ?case by simp
next
  case (Cons x ks)
  show ?case
  proof (cases "map_of a x")
    case None
    with Cons show ?thesis by auto
  next
    case (Some va)
    with Cons show ?thesis by auto
  qed
qed

lemma keys_map_filter:
  "set ks \<subseteq> fst ` set a \<Longrightarrow>
   map fst (List.map_filter
             (\<lambda>key. case map_of a key of
                       None \<Rightarrow> None
                     | Some va \<Rightarrow> if P key then Some (key, va) else None)
             ks) = filter P ks"
proof (induction ks)
  case Nil
  show ?case by simp
next
  case (Cons x ks)
  then obtain va where "map_of a x = Some va"
    by (metis (no_types, lifting) domD dom_map_of_conv_image_fst insert_subset list.simps(15))
  with Cons show ?case by simp
qed

lemma dict_compare_Some:
  "dict_compare (Some a) (Some b) =
     Some (List.map_filter
            (\<lambda>key. case map_of a key of
                      None \<Rightarrow> None
                    | Some va \<Rightarrow> if selected a b key then Some (key, va) else None)
            (map fst a))"
  by (simp add: dict_compare_def dict_get_def dict_keys_def)

lemma dict_keys_diff:
  "dict_keys (items (dict_compare (Some a) (Some b))) = filter (selected a b) (dict_keys a)"
  by (simp add: dict_compare_Some items_def dict_keys_def keys_map_filter)

lemma dict_get_diff:
  "dict_get (items (dict_compare (Some a) (Some b))) k =
     (if dict_contains a k \<and> selected a b k then dict_get a k else None)"
  by (simp add: dict_compare_Some items_def dict_get_def dict_contains_def dict_keys_def
      map_of_map_filter_keys)

lemma selected_iff:
  "dict_contains a k \<Longrightarrow>
   selected a b k \<longleftrightarrow>
     (\<not> dict_contains b k \<or> (\<exists>va vb. dict_get a k = Some va \<and> dict_get b k = Some vb \<and> vb < va))"
  by (auto simp: selected_def dict_contains_def dict_keys_def dict_get_def
      split: option.splits dest: weak_map_of_SomeI)

text \<open>
  C1. For dicts \<open>a\<close> and \<open>b\<close> that are both present, \<open>dict_compare\<close> returns a dict
  whose keys are exactly the keys \<open>k\<close> of \<open>a\<close> that are not in \<open>b\<close> or have
  \<open>a[k] > b[k]\<close>, each with the value \<open>a[k]\<close>; a key whose value in \<open>a\<close> is at most
  its value in \<open>b\<close> is never in the result. The result of a well-formed dict is
  well-formed.
\<close>

theorem dict_compare_sound_complete:
  "\<exists>d. dict_compare (Some a) (Some b) = Some d \<and>
     (\<forall>k. dict_contains d k \<longleftrightarrow>
            dict_contains a k \<and>
            (\<not> dict_contains b k \<or>
             (\<exists>va vb. dict_get a k = Some va \<and> dict_get b k = Some vb \<and> vb < va))) \<and>
     (\<forall>k. dict_contains d k \<longrightarrow> dict_get d k = dict_get a k) \<and>
     (\<forall>k va vb. dict_get a k = Some va \<and> dict_get b k = Some vb \<and> va \<le> vb
                  \<longrightarrow> \<not> dict_contains d k) \<and>
     (well_formed a \<longrightarrow> well_formed d)"
proof -
  obtain d where d: "dict_compare (Some a) (Some b) = Some d"
    by (simp add: dict_compare_Some)
  then have it: "items (dict_compare (Some a) (Some b)) = d"
    by (simp add: items_def)
  have keys: "dict_keys d = filter (selected a b) (dict_keys a)"
    using dict_keys_diff [of a b] by (simp add: it)
  have mem: "dict_contains d k \<longleftrightarrow> dict_contains a k \<and> selected a b k" for k
    by (auto simp: dict_contains_def keys)
  have c1: "dict_contains d k \<longleftrightarrow>
            dict_contains a k \<and>
            (\<not> dict_contains b k \<or>
             (\<exists>va vb. dict_get a k = Some va \<and> dict_get b k = Some vb \<and> vb < va))" for k
    using mem [of k] selected_iff [of a k b] by blast
  have c2: "dict_contains d k \<longrightarrow> dict_get d k = dict_get a k" for k
    using dict_get_diff [of a b k] mem [of k] by (simp add: it)
  have c3: "dict_get a k = Some va \<and> dict_get b k = Some vb \<and> va \<le> vb
              \<longrightarrow> \<not> dict_contains d k" for k va vb
  proof (intro impI notI)
    assume h: "dict_get a k = Some va \<and> dict_get b k = Some vb \<and> va \<le> vb"
      and "dict_contains d k"
    then have "selected a b k" using mem by blast
    moreover have "dict_contains b k"
      using h by (auto simp: dict_contains_def dict_keys_def dict_get_def dest: map_of_SomeD intro: rev_image_eqI)
    ultimately show False using h by (simp add: selected_def)
  qed
  have c4: "well_formed a \<longrightarrow> well_formed d"
    by (simp add: well_formed_def keys)
  from d c1 c2 c3 c4 show ?thesis by blast
qed

theorem dict_compare_sound_complete_witness:
  "dict_compare (Some live_counts) (Some cached_counts) = Some [(''Exercises'', 1), (''Labs'', 2)] \<and>
   dict_get live_counts ''Slides'' = Some 3 \<and> dict_get cached_counts ''Slides'' = Some 3 \<and>
   \<not> dict_contains (items (dict_compare (Some live_counts) (Some cached_counts))) ''Slides'' \<and>
   well_formed live_counts \<and>
   well_formed (items (dict_compare (Some live_counts) (Some cached_counts)))"
  using dict_compare_sound_complete [of live_counts cached_counts]
  by (simp add: live_counts_def cached_counts_def dict_compare_def selected_def
      dict_contains_def dict_keys_def dict_get_def items_def well_formed_def)

text \<open>
  C2. With \<open>None\<close> the absent mapping: \<open>dict_compare\<close> returns its first argument
  unchanged when the second is absent, and its second argument unchanged when the first
  is absent.
\<close>

theorem dict_compare_absent:
  "dict_compare a None = a \<and> dict_compare None b = b"
  by (cases b) (simp_all add: dict_compare_def)

theorem dict_compare_absent_witness:
  "dict_compare (Some live_counts) None = Some live_counts \<and>
   dict_compare None (Some cached_counts) = Some cached_counts \<and>
   dict_compare (None :: string dict option) (None :: string dict option) = None"
  using dict_compare_absent [of "Some live_counts" "Some cached_counts"]
    dict_compare_absent [of "None :: string dict option" "None :: string dict option"]
  by simp


section \<open>Properties of the concurrent executor\<close>

lemma mset_pick: "i < length ys \<Longrightarrow> mset (ys ! i # take i ys @ drop (Suc i) ys) = mset ys"
proof -
  assume "i < length ys"
  then have "ys = take i ys @ ys ! i # drop (Suc i) ys"
    by (rule id_take_nth_drop)
  then have "mset ys = mset (take i ys @ ys ! i # drop (Suc i) ys)"
    by simp
  then show ?thesis by simp
qed

lemma mset_arrange: "mset (arrange choices xs) = mset xs"
proof (induction choices xs rule: arrange.induct)
  case (1 choices)
  show ?case by simp
next
  case (2 choices x xs)
  define i where "i = (case choices of [] \<Rightarrow> 0 | ch # _ \<Rightarrow> ch mod length (x # xs))"
  have lt: "i < length (x # xs)"
    by (cases choices) (simp_all add: i_def)
  have "mset (arrange (tl choices) (take i (x # xs) @ drop (Suc i) (x # xs)))
        = mset (take i (x # xs) @ drop (Suc i) (x # xs))"
    using "2.IH" [of i] by (simp add: i_def)
  then have "mset (arrange choices (x # xs))
        = mset ((x # xs) ! i # take i (x # xs) @ drop (Suc i) (x # xs))"
    by (simp add: i_def Let_def)
  also have "\<dots> = mset (x # xs)"
    using lt by (rule mset_pick)
  finally show ?case .
qed

lemma run_workers_calls: "map fst (fst (run_workers worker its w)) = its"
proof (induction its arbitrary: w)
  case Nil
  show ?case by simp
next
  case (Cons a its)
  obtain res w1 where step: "worker a w = (res, w1)" by (cases "worker a w")
  obtain futures w2 where rest: "run_workers worker its w1 = (futures, w2)"
    by (cases "run_workers worker its w1")
  from Cons.IH [of w1] rest have "map fst futures = its" by simp
  then show ?case by (simp add: step rest)
qed

lemma collect_closed:
  "collect fs results reported =
     Inr (results @ concat (map (contribution \<circ> snd) fs), reported @ concat (map failure fs))"
proof (induction fs arbitrary: results reported)
  case Nil
  show ?case by simp
next
  case (Cons f fs)
  obtain args future where f: "f = (args, future)" by (cases f)
  show ?case
  proof (cases future)
    case (Inl e)
    then show ?thesis
      by (simp add: f Cons.IH try_result_def contribution_def failure_def)
  next
    case (Inr r)
    then show ?thesis
      by (cases r) (simp_all add: f Cons.IH try_result_def contribution_def failure_def)
  qed
qed

lemma mset_concat_map_cong:
  "mset (concat (map f xs)) = (\<Sum>x\<in>#mset xs. mset (f x))"
  by (induction xs) simp_all

lemma world_after_Cons:
  "world_after worker (args # calls) w = world_after worker calls (snd (worker args w))"
  by (simp add: world_after_def)

lemma run_workers_world:
  "snd (run_workers worker calls w) = world_after worker calls w"
proof (induction calls arbitrary: w)
  case Nil
  show ?case by (simp add: world_after_def)
next
  case (Cons args calls)
  obtain res w1 where step: "worker args w = (res, w1)" by (cases "worker args w")
  obtain futures w2 where rest: "run_workers worker calls w1 = (futures, w2)"
    by (cases "run_workers worker calls w1")
  from Cons.IH [of w1] rest have "w2 = world_after worker calls w1" by simp
  then show ?case by (simp add: step rest world_after_Cons)
qed

lemma run_workers_length: "length (fst (run_workers worker calls w)) = length calls"
  using run_workers_calls [of worker calls w] by (metis length_map)

lemma run_workers_nth:
  "i < length calls \<Longrightarrow>
   fst (run_workers worker calls w) ! i =
     (calls ! i, fst (worker (calls ! i) (world_after worker (take i calls) w)))"
proof (induction calls arbitrary: i w)
  case Nil
  then show ?case by simp
next
  case (Cons args calls)
  obtain res w1 where step: "worker args w = (res, w1)" by (cases "worker args w")
  obtain futures w2 where rest: "run_workers worker calls w1 = (futures, w2)"
    by (cases "run_workers worker calls w1")
  show ?case
  proof (cases i)
    case 0
    then show ?thesis by (simp add: step rest world_after_def)
  next
    case (Suc j)
    with Cons.prems have "j < length calls" by simp
    from Cons.IH [OF this, of w1] rest
    have "futures ! j = (calls ! j, fst (worker (calls ! j) (world_after worker (take j calls) w1)))"
      by simp
    then show ?thesis by (simp add: Suc step rest world_after_Cons)
  qed
qed

text \<open>
  C4. With a positive pool size, \<open>threadpool_execute\<close> calls the worker once per
  element of \<open>its\<close>: the calls made are a permutation of \<open>its\<close>, and the future of
  each call holds what the worker returned or raised on that call's arguments, in the
  world the calls before it left. No exception of a worker leaves the executor (it
  returns), and the aggregate it returns is the concatenation, in completion order, of
  the results of the calls that returned a list: a call that raised, or returned
  \<^verbatim>\<open>None\<close>, contributes nothing and a raised exception is only reported. As a
  multiset the aggregate does not depend on the completion order. The world it leaves
  is the one after all the calls.
\<close>

theorem threadpool_execute_isolates_failures:
  assumes "0 < max_workers"
  shows "\<exists>futures.
     length futures = length its \<and>
     (\<forall>i<length its.
        futures ! i =
          (arrange started its ! i,
           fst (worker_function (arrange started its ! i)
                  (world_after worker_function (take i (arrange started its)) w)))) \<and>
     mset (arrange started its) = mset its \<and>
     mset (arrange completed futures) = mset futures \<and>
     threadpool_execute worker_function its max_workers started completed w =
       (Inr (concat (map (contribution \<circ> snd) (arrange completed futures)),
             concat (map failure (arrange completed futures)),
             arrange started its),
        world_after worker_function (arrange started its) w) \<and>
     mset (concat (map (contribution \<circ> snd) (arrange completed futures)))
       = (\<Sum>f\<in>#mset futures. mset (contribution (snd f)))"
proof -
  let ?calls = "arrange started its"
  obtain futures w' where run: "run_workers worker_function ?calls w = (futures, w')"
    by (cases "run_workers worker_function ?calls w")
  have names: "map fst futures = ?calls"
    using run_workers_calls [of worker_function ?calls w] by (simp add: run)
  have calls: "mset ?calls = mset its"
    by (rule mset_arrange)
  then have same_length: "length ?calls = length its"
    by (metis size_mset)
  have len: "length futures = length its"
    using run_workers_length [of worker_function ?calls w] same_length by (simp add: run)
  have held: "\<forall>i<length its.
        futures ! i =
          (?calls ! i,
           fst (worker_function (?calls ! i) (world_after worker_function (take i ?calls) w)))"
  proof (intro allI impI)
    fix i assume "i < length its"
    then have "i < length ?calls" by (simp add: same_length)
    from run_workers_nth [OF this, of worker_function w] show
      "futures ! i =
          (?calls ! i,
           fst (worker_function (?calls ! i) (world_after worker_function (take i ?calls) w)))"
      by (simp add: run)
  qed
  have world: "w' = world_after worker_function ?calls w"
    using run_workers_world [of worker_function ?calls w] by (simp add: run)
  have perm: "mset (arrange completed futures) = mset futures"
    by (rule mset_arrange)
  have exec: "threadpool_execute worker_function its max_workers started completed w =
       (Inr (concat (map (contribution \<circ> snd) (arrange completed futures)),
             concat (map failure (arrange completed futures)),
             ?calls),
        world_after worker_function ?calls w)"
    using assms by (simp add: threadpool_execute_def run collect_closed names world)
  have "mset (concat (map (contribution \<circ> snd) (arrange completed futures)))
       = (\<Sum>f\<in>#mset (arrange completed futures). mset ((contribution \<circ> snd) f))"
    by (rule mset_concat_map_cong)
  then have total: "mset (concat (map (contribution \<circ> snd) (arrange completed futures)))
       = (\<Sum>f\<in>#mset futures. mset (contribution (snd f)))"
    by (simp add: perm)
  from len held calls perm exec total show ?thesis by blast
qed

theorem threadpool_execute_isolates_failures_witness:
  "(0::int) < 2 \<and>
   arrange [1, 1] [1, 2, 3, 4 :: nat] = [2, 3, 1, 4] \<and>
   fst (example_worker 2 0) = Inl (Error ''boom'') \<and>
   fst (example_worker 3 1) = Inr None \<and>
   fst (example_worker 1 2) = Inr (Some [1, 10]) \<and>
   fst (example_worker 4 3) = Inr (Some [4, 40]) \<and>
   threadpool_execute example_worker [1, 2, 3, 4] 2 [1, 1] [3] 0 =
     (Inr ([4, 40, 1, 10], [(2, Error ''boom'')], [2, 3, 1, 4]), 4)"
proof -
  have pos: "(0::int) < 2" by simp
  have calls: "arrange [1, 1] [1, 2, 3, 4 :: nat] = [2, 3, 1, 4]" by simp
  from threadpool_execute_isolates_failures
    [OF pos, where worker_function = example_worker and started = "[1, 1]"
       and its = "[1, 2, 3, 4]" and w = 0 and completed = "[3]"]
  obtain futures where len: "length futures = length [1, 2, 3, 4 :: nat]"
    and held: "\<forall>i<length [1, 2, 3, 4 :: nat].
        futures ! i =
          (arrange [1, 1] [1, 2, 3, 4] ! i,
           fst (example_worker (arrange [1, 1] [1, 2, 3, 4] ! i)
                  (world_after example_worker (take i (arrange [1, 1] [1, 2, 3, 4])) 0)))"
    and exec: "threadpool_execute example_worker [1, 2, 3, 4] 2 [1, 1] [3] 0 =
       (Inr (concat (map (contribution \<circ> snd) (arrange [3] futures)),
             concat (map failure (arrange [3] futures)),
             arrange [1, 1] [1, 2, 3, 4]),
        world_after example_worker (arrange [1, 1] [1, 2, 3, 4]) 0)"
    by blast
  have f0: "futures ! 0 = (2, Inl (Error ''boom''))"
    using held by (simp add: calls world_after_def example_worker_def)
  have f1: "futures ! 1 = (3, Inr None)"
    using held by (simp add: calls world_after_def example_worker_def)
  have f2: "futures ! 2 = (1, Inr (Some [1, 10]))"
    using held by (simp add: calls world_after_def example_worker_def)
  have f3: "futures ! 3 = (4, Inr (Some [4, 40]))"
    using held by (simp add: calls world_after_def example_worker_def)
  have "futures = [futures ! 0, futures ! 1, futures ! 2, futures ! 3]"
    using len by (intro nth_equalityI) (auto simp: nth_Cons' less_Suc_eq numeral_eq_Suc)
  then have futures: "futures = [(2, Inl (Error ''boom'')), (3, Inr None),
                                 (1, Inr (Some [1, 10])), (4, Inr (Some [4, 40]))]"
    using f0 f1 f2 f3 by simp
  have "threadpool_execute example_worker [1, 2, 3, 4] 2 [1, 1] [3] 0 =
     (Inr ([4, 40, 1, 10], [(2, Error ''boom'')], [2, 3, 1, 4]), 4)"
    unfolding exec futures
    by (simp add: calls world_after_def example_worker_def contribution_def failure_def)
  with pos calls show ?thesis by (simp add: example_worker_def)
qed

section \<open>Properties of the per-course stage\<close>

lemmas collaborator_defs =
  parse_index_def mkdir_def parse_cache_def stash_cache_def count_files_in_subfolders_def
  parse_docs_def get_file_def download_file_def commit_cache_def record_event_def

lemma dict_compare_empty: "dict_compare (Some []) (Some b) = Some []"
  by (simp add: dict_compare_def dict_keys_def)

lemma search_cats_trace:
  "\<exists>t. trace (snd (search_cats_in_course p c w)) = trace w @ t \<and>
       (\<forall>e\<in>set t. \<not> is_fetch e) \<and>
       filter is_stash t =
         (case server_index w (year c) (semester_type c) (semester c) (ID c) of
            Inl e \<Rightarrow> []
          | Inr idx \<Rightarrow>
              if truthy (dict_compare (Some (counts idx))
                           (Some (fst (parse_cache (course_path p c) idx (name c) w))))
              then [StashCache (course_path p c) (counts idx)] else [])"
proof (cases "server_index w (year c) (semester_type c) (semester c) (ID c)")
  case (Inl e)
  then show ?thesis
    by (simp add: search_cats_in_course_def collaborator_defs)
next
  case (Inr idx)
  show ?thesis
  proof (cases "counts idx = []")
    case True
    with Inr show ?thesis
      by (simp add: search_cats_in_course_def collaborator_defs dict_compare_empty truthy_def)
  next
    case False
    with Inr show ?thesis
      by (simp add: search_cats_in_course_def collaborator_defs Let_def split: sum.splits)
  qed
qed

lemma search_cats_cache:
  assumes "server_index w (year c) (semester_type c) (semester c) (ID c) = Inr idx"
  shows "cache (snd (search_cats_in_course p c w)) =
     (if truthy (dict_compare (Some (counts idx))
                  (Some (fst (parse_cache (course_path p c) idx (name c) w))))
      then (cache w)(course_path p c \<mapsto> counts idx) else cache w)"
proof (cases "counts idx = []")
  case True
  with assms show ?thesis
    by (simp add: search_cats_in_course_def collaborator_defs dict_compare_empty truthy_def)
next
  case False
  with assms show ?thesis
    by (simp add: search_cats_in_course_def collaborator_defs Let_def split: sum.splits)
qed

lemma search_cats_failed_index:
  assumes "server_index w (year c) (semester_type c) (semester c) (ID c) = Inl e"
  shows "cache (snd (search_cats_in_course p c w)) = cache w"
  using assms by (simp add: search_cats_in_course_def collaborator_defs)

lemma append_subcats_resolved:
  assumes "\<forall>k\<in>set (dict_keys d). \<exists>i. get_catID idx k = Inr i"
  shows "\<exists>ts. append_subcats idx c fp d acc = Inr (acc @ ts) \<and>
              map fst ts = dict_keys d \<and>
              (\<forall>t\<in>set ts. get_catID idx (fst t) = Inr (fst (snd t)) \<and> snd (snd t) = (c, fp))"
  using assms
proof (induction d arbitrary: acc)
  case Nil
  show ?case by (simp add: dict_keys_def)
next
  case (Cons kv d)
  obtain category cnt where kv: "kv = (category, cnt)" by (cases kv)
  from Cons.prems obtain i where i: "get_catID idx category = Inr i"
    by (auto simp: kv dict_keys_def)
  from Cons.prems have "\<forall>k\<in>set (dict_keys d). \<exists>i. get_catID idx k = Inr i"
    by (simp add: dict_keys_def)
  from Cons.IH [OF this, of "acc @ [(category, i, c, fp)]"]
  obtain ts where ts: "append_subcats idx c fp d (acc @ [(category, i, c, fp)])
                         = Inr ((acc @ [(category, i, c, fp)]) @ ts)"
    "map fst ts = dict_keys d"
    "\<forall>t\<in>set ts. get_catID idx (fst t) = Inr (fst (snd t)) \<and> snd (snd t) = (c, fp)"
    by blast
  have "append_subcats idx c fp (kv # d) acc = Inr (acc @ ((category, i, c, fp) # ts))"
    by (simp add: kv i ts(1))
  moreover have "map fst ((category, i, c, fp) # ts) = dict_keys (kv # d)"
    using ts(2) by (simp add: kv dict_keys_def)
  moreover have "\<forall>t\<in>set ((category, i, c, fp) # ts).
                   get_catID idx (fst t) = Inr (fst (snd t)) \<and> snd (snd t) = (c, fp)"
    using ts(3) i by simp
  ultimately show ?case by blast
qed

lemma truthy_diff: "truthy (dict_compare (Some a) (Some b)) \<longleftrightarrow> items (dict_compare (Some a) (Some b)) \<noteq> []"
  by (simp add: dict_compare_Some truthy_def items_def)

lemma append_subcats_Nil_items:
  "\<not> truthy (dict_compare (Some a) (Some b)) \<Longrightarrow>
   append_subcats idx c fp (items (dict_compare (Some a) (Some b))) acc = Inr acc"
  by (simp add: truthy_diff)

lemma search_cats_fst:
  assumes idx: "server_index w (year c) (semester_type c) (semester c) (ID c) = Inr idx"
    and nonempty: "counts idx \<noteq> []"
  shows "fst (search_cats_in_course p c w) =
     (case append_subcats idx c (course_path p c)
             (items (dict_compare (Some (counts idx))
                      (Some (fst (parse_cache (course_path p c) idx (name c) w))))) [] of
        Inl e \<Rightarrow> Inl e
      | Inr subcats1 \<Rightarrow>
          (case append_subcats idx c (course_path p c)
                  (items (dict_compare
                     (Some (fst (parse_cache (course_path p c) idx (name c) w)))
                     (Some (fst (count_files_in_subfolders (course_path p c) w)))))
                  subcats1 of
             Inl e \<Rightarrow> Inl e
           | Inr subcats2 \<Rightarrow> Inr (Some subcats2)))"
proof -
  let ?fp = "course_path p c"
  let ?old = "case cache w ?fp of None \<Rightarrow> [] | Some d \<Rightarrow> d"
  let ?d1 = "dict_compare (Some (counts idx)) (Some ?old)"
  let ?d2 = "dict_compare (Some ?old) (Some (inventory w ?fp))"
  show ?thesis
  proof (cases "truthy ?d1")
    case t1: True
    show ?thesis
    proof (cases "truthy ?d2")
      case True
      with t1 idx nonempty show ?thesis
        by (simp add: search_cats_in_course_def Let_def collaborator_defs split: sum.splits)
    next
      case False
      with t1 idx nonempty show ?thesis
        using append_subcats_Nil_items [OF False]
        by (simp add: search_cats_in_course_def Let_def collaborator_defs split: sum.splits)
    qed
  next
    case f1: False
    show ?thesis
    proof (cases "truthy ?d2")
      case True
      with f1 idx nonempty show ?thesis
        using append_subcats_Nil_items [OF f1]
        by (simp add: search_cats_in_course_def Let_def collaborator_defs split: sum.splits)
    next
      case False
      with f1 idx nonempty show ?thesis
        using append_subcats_Nil_items [OF f1] append_subcats_Nil_items [OF False]
        by (simp add: search_cats_in_course_def Let_def collaborator_defs split: sum.splits)
    qed
  qed
qed

lemma search_cats_result:
  assumes idx: "server_index w (year c) (semester_type c) (semester c) (ID c) = Inr idx"
    and nonempty: "counts idx \<noteq> []"
    and r1: "\<forall>k\<in>set (dict_keys (items (dict_compare (Some (counts idx))
                 (Some (fst (parse_cache (course_path p c) idx (name c) w)))))).
               \<exists>i. get_catID idx k = Inr i"
    and r2: "\<forall>k\<in>set (dict_keys (items (dict_compare
                 (Some (fst (parse_cache (course_path p c) idx (name c) w)))
                 (Some (fst (count_files_in_subfolders (course_path p c) w)))))).
               \<exists>i. get_catID idx k = Inr i"
  shows "\<exists>ts1 ts2.
     fst (search_cats_in_course p c w) = Inr (Some (ts1 @ ts2)) \<and>
     map fst ts1 = dict_keys (items (dict_compare (Some (counts idx))
                     (Some (fst (parse_cache (course_path p c) idx (name c) w))))) \<and>
     map fst ts2 = dict_keys (items (dict_compare
                     (Some (fst (parse_cache (course_path p c) idx (name c) w)))
                     (Some (fst (count_files_in_subfolders (course_path p c) w))))) \<and>
     (\<forall>t\<in>set (ts1 @ ts2). get_catID idx (fst t) = Inr (fst (snd t)) \<and>
                              snd (snd t) = (c, course_path p c))"
proof -
  let ?fp = "course_path p c"
  let ?old = "fst (parse_cache ?fp idx (name c) w)"
  let ?d1 = "dict_compare (Some (counts idx)) (Some ?old)"
  let ?d2 = "dict_compare (Some ?old) (Some (fst (count_files_in_subfolders ?fp w)))"
  from append_subcats_resolved [OF r1, of c ?fp "[]"]
  obtain ts1 where ts1: "append_subcats idx c ?fp (items ?d1) [] = Inr ts1"
    "map fst ts1 = dict_keys (items ?d1)"
    "\<forall>t\<in>set ts1. get_catID idx (fst t) = Inr (fst (snd t)) \<and> snd (snd t) = (c, ?fp)"
    by auto
  from append_subcats_resolved [OF r2, of c ?fp ts1]
  obtain ts2 where ts2: "append_subcats idx c ?fp (items ?d2) ts1 = Inr (ts1 @ ts2)"
    "map fst ts2 = dict_keys (items ?d2)"
    "\<forall>t\<in>set ts2. get_catID idx (fst t) = Inr (fst (snd t)) \<and> snd (snd t) = (c, ?fp)"
    by auto
  have "fst (search_cats_in_course p c w) = Inr (Some (ts1 @ ts2))"
    by (simp add: search_cats_fst [OF idx nonempty] ts1(1) ts2(1))
  with ts1 ts2 show ?thesis by auto
qed


section \<open>What the per-course stage emits\<close>

lemmas example_defs =
  example_world_def example_course_def example_index_def example_path_def
  drift_world_def removed_world_def deleted_world_def grown_world_def
  slides_task_def exercises_task_def

lemma upper_s: "upper ''s'' = ''S''"
  by code_simp

lemmas eval_defs =
  search_cats_in_course_def collaborator_defs course_path_def upper_s
  dict_compare_def selected_def dict_contains_def dict_keys_def dict_get_def
  truthy_def items_def Let_def

lemma example_course_path: "course_path [''CLIP''] example_course = example_path"
  by (simp add: course_path_def example_defs upper_s)

text \<open>
  C3, as stated, fails: in \<open>drift_world\<close> the category Slides is in the server diff
  (three on the server, two in the cache) and in the folder diff (two in the cache, one
  on disk), and the stage returns two tasks for it.
\<close>

theorem duplicate_task_counterexample:
  "dict_compare (Some [(''Slides'', 3)]) (Some [(''Slides'', 2)]) = Some [(''Slides'', 3)] \<and>
   dict_compare (Some [(''Slides'', 2)]) (Some [(''Slides'', 1)]) = Some [(''Slides'', 2)] \<and>
   fst (search_cats_in_course [''CLIP''] example_course drift_world)
     = Inr (Some [slides_task, slides_task])"
  by (simp add: eval_defs example_defs)


text \<open>
  C3, amended. For a course with a non-empty index whose category identifiers resolve,
  the stage returns one task per key of the server diff, in its order, followed by one
  task per key of the folder diff: a category in both diffs gets two tasks. Each task
  carries the identifier the index gives for its category, the course and its folder.
\<close>

theorem search_cats_emits_server_then_folder_diff:
  assumes "server_index w (year c) (semester_type c) (semester c) (ID c) = Inr idx"
    and "counts idx \<noteq> []"
    and "\<forall>k\<in>set (dict_keys (items (dict_compare (Some (counts idx))
                 (Some (fst (parse_cache (course_path p c) idx (name c) w)))))).
               \<exists>i. get_catID idx k = Inr i"
    and "\<forall>k\<in>set (dict_keys (items (dict_compare
                 (Some (fst (parse_cache (course_path p c) idx (name c) w)))
                 (Some (fst (count_files_in_subfolders (course_path p c) w)))))).
               \<exists>i. get_catID idx k = Inr i"
  shows "\<exists>tasks.
     fst (search_cats_in_course p c w) = Inr (Some tasks) \<and>
     map fst tasks =
       dict_keys (items (dict_compare (Some (counts idx))
                   (Some (fst (parse_cache (course_path p c) idx (name c) w))))) @
       dict_keys (items (dict_compare
                   (Some (fst (parse_cache (course_path p c) idx (name c) w)))
                   (Some (fst (count_files_in_subfolders (course_path p c) w))))) \<and>
     (\<forall>t\<in>set tasks. get_catID idx (fst t) = Inr (fst (snd t)) \<and>
                       snd (snd t) = (c, course_path p c))"
proof -
  from search_cats_result [OF assms]
  obtain ts1 ts2 where
    "fst (search_cats_in_course p c w) = Inr (Some (ts1 @ ts2))"
    "map fst ts1 = dict_keys (items (dict_compare (Some (counts idx))
                     (Some (fst (parse_cache (course_path p c) idx (name c) w)))))"
    "map fst ts2 = dict_keys (items (dict_compare
                     (Some (fst (parse_cache (course_path p c) idx (name c) w)))
                     (Some (fst (count_files_in_subfolders (course_path p c) w)))))"
    "\<forall>t\<in>set (ts1 @ ts2). get_catID idx (fst t) = Inr (fst (snd t)) \<and>
                              snd (snd t) = (c, course_path p c)"
    by blast
  then have "fst (search_cats_in_course p c w) = Inr (Some (ts1 @ ts2)) \<and>
     map fst (ts1 @ ts2) =
       dict_keys (items (dict_compare (Some (counts idx))
                   (Some (fst (parse_cache (course_path p c) idx (name c) w))))) @
       dict_keys (items (dict_compare
                   (Some (fst (parse_cache (course_path p c) idx (name c) w)))
                   (Some (fst (count_files_in_subfolders (course_path p c) w))))) \<and>
     (\<forall>t\<in>set (ts1 @ ts2). get_catID idx (fst t) = Inr (fst (snd t)) \<and>
                       snd (snd t) = (c, course_path p c))"
    by simp
  then show ?thesis by blast
qed

theorem search_cats_emits_server_then_folder_diff_witness:
  "server_index drift_world ''2024'' ''s'' ''1'' ''11154'' = Inr (example_index [(''Slides'', 3)]) \<and>
   counts (example_index [(''Slides'', 3)]) \<noteq> [] \<and>
   (\<exists>tasks. fst (search_cats_in_course [''CLIP''] example_course drift_world) = Inr (Some tasks) \<and>
            map fst tasks = [''Slides'', ''Slides''])"
  using search_cats_emits_server_then_folder_diff
    [of drift_world example_course "example_index [(''Slides'', 3)]" "[''CLIP'']"]
  by (simp add: eval_defs example_defs)


text \<open>
  C6. For a course that reaches the cross-check (its index is read and is not empty)
  and whose server diff is empty, a category whose count in the cache exceeds the
  number of files in its subfolder (none when the subfolder is not counted) is among
  the returned tasks, although the server count did not change. The identifiers of the
  folder diff's categories are taken to resolve: the lookup belongs to the imported
  index class.
\<close>

theorem folder_shortfall_rescheduled:
  assumes idx: "server_index w (year c) (semester_type c) (semester c) (ID c) = Inr idx"
    and nonempty: "counts idx \<noteq> []"
    and same: "\<not> truthy (dict_compare (Some (counts idx))
                   (Some (fst (parse_cache (course_path p c) idx (name c) w))))"
    and cached: "dict_get (fst (parse_cache (course_path p c) idx (name c) w)) k = Some n"
    and on_disk: "(case dict_get (fst (count_files_in_subfolders (course_path p c) w)) k of
                     None \<Rightarrow> 0 | Some m \<Rightarrow> m) < n"
    and resolves: "\<forall>k\<in>set (dict_keys (items (dict_compare
                 (Some (fst (parse_cache (course_path p c) idx (name c) w)))
                 (Some (fst (count_files_in_subfolders (course_path p c) w)))))).
               \<exists>i. get_catID idx k = Inr i"
  shows "\<exists>tasks catID.
     fst (search_cats_in_course p c w) = Inr (Some tasks) \<and>
     get_catID idx k = Inr catID \<and>
     (k, catID, c, course_path p c) \<in> set tasks"
proof -
  let ?old = "fst (parse_cache (course_path p c) idx (name c) w)"
  let ?inv = "fst (count_files_in_subfolders (course_path p c) w)"
  have none: "items (dict_compare (Some (counts idx)) (Some ?old)) = []"
    using same by (simp add: truthy_diff)
  have r1: "\<forall>k\<in>set (dict_keys (items (dict_compare (Some (counts idx)) (Some ?old)))).
               \<exists>i. get_catID idx k = Inr i"
    by (simp add: none dict_keys_def)
  from search_cats_result [OF idx nonempty r1 resolves]
  obtain ts1 ts2 where res:
    "fst (search_cats_in_course p c w) = Inr (Some (ts1 @ ts2))"
    "map fst ts2 = dict_keys (items (dict_compare (Some ?old) (Some ?inv)))"
    "\<forall>t\<in>set (ts1 @ ts2). get_catID idx (fst t) = Inr (fst (snd t)) \<and>
                              snd (snd t) = (c, course_path p c)"
    by blast
  have in_old: "dict_contains ?old k"
    using cached
    by (auto simp: dict_contains_def dict_keys_def dict_get_def dest: map_of_SomeD
        intro: rev_image_eqI)
  have sel: "selected ?old ?inv k"
  proof (cases "dict_get ?inv k")
    case None
    then have "\<not> dict_contains ?inv k"
      by (simp add: dict_contains_def dict_keys_def dict_get_def map_of_eq_None_iff)
    then show ?thesis by (simp add: selected_def)
  next
    case (Some m)
    with on_disk cached show ?thesis by (simp add: selected_def)
  qed
  have "k \<in> set (dict_keys (items (dict_compare (Some ?old) (Some ?inv))))"
    using in_old sel by (simp add: dict_keys_diff dict_contains_def)
  then have "k \<in> set (map fst ts2)" by (simp add: res(2))
  then obtain t where t: "t \<in> set ts2" "fst t = k" by auto
  with res(3) have "get_catID idx k = Inr (fst (snd t))" "snd (snd t) = (c, course_path p c)"
    by auto
  then have "t = (k, fst (snd t), c, course_path p c)"
    using t(2) by (cases t) auto
  with t(1) have "(k, fst (snd t), c, course_path p c) \<in> set (ts1 @ ts2)" by simp
  with res(1) \<open>get_catID idx k = Inr (fst (snd t))\<close> show ?thesis by blast
qed

theorem folder_shortfall_rescheduled_witness:
  "server_index deleted_world ''2024'' ''s'' ''1'' ''11154'' = Inr (example_index [(''Slides'', 3)]) \<and>
   \<not> truthy (dict_compare (Some [(''Slides'', 3)]) (Some [(''Slides'', 3)])) \<and>
   dict_get (fst (parse_cache example_path (example_index [(''Slides'', 3)]) ''AED'' deleted_world))
     ''Slides'' = Some 3 \<and>
   dict_get (fst (count_files_in_subfolders example_path deleted_world)) ''Slides'' = Some 1 \<and>
   fst (search_cats_in_course [''CLIP''] example_course deleted_world) = Inr (Some [slides_task])"
  using folder_shortfall_rescheduled
    [of deleted_world example_course "example_index [(''Slides'', 3)]" "[''CLIP'']" "''Slides''" 3]
  by (simp add: eval_defs example_defs)

text \<open>
  C7. For a course whose index is empty the stage returns \<^verbatim>\<open>None\<close>, which adds
  nothing to the executor's aggregate; it raises nothing; the folders, the cache and the
  files on disk are as before, and the only call made is the one that read the index
  (no folder is created).
\<close>

theorem empty_index_skips_course:
  assumes "server_index w (year c) (semester_type c) (semester c) (ID c) = Inr idx"
    and "counts idx = []"
  shows "fst (search_cats_in_course p c w) = Inr None \<and>
     try_result (fst (search_cats_in_course p c w)) results = Inr results \<and>
     folders (snd (search_cats_in_course p c w)) = folders w \<and>
     cache (snd (search_cats_in_course p c w)) = cache w \<and>
     inventory (snd (search_cats_in_course p c w)) = inventory w \<and>
     new_events w (snd (search_cats_in_course p c w))
       = [ParseIndex (year c) (semester_type c) (semester c) (ID c)]"
  using assms
  by (simp add: search_cats_in_course_def parse_index_def record_event_def try_result_def
      new_events_def)

theorem empty_index_skips_course_witness:
  "server_index removed_world ''2024'' ''s'' ''1'' ''11154'' = Inr (example_index []) \<and>
   counts (example_index []) = [] \<and>
   fst (search_cats_in_course [''CLIP''] example_course removed_world) = Inr None \<and>
   folders (snd (search_cats_in_course [''CLIP''] example_course removed_world)) = {} \<and>
   trace (snd (search_cats_in_course [''CLIP''] example_course removed_world))
     = [ParseIndex ''2024'' ''s'' ''1'' ''11154'']"
  using empty_index_skips_course
    [of removed_world example_course "example_index []" "[''CLIP'']" "[]"]
  by (simp add: eval_defs example_defs new_events_def)


text \<open>
  C10. The folder diff is computed against the cache record as it was read from the
  world the stage started in, also when the server diff is not empty and
  \<open>stash_cache\<close> has by then overwritten the persisted record with the live index:
  the tasks of the second loop are the keys of the diff of that earlier record and the
  files on disk, while the final world's record is the live index.
\<close>

theorem folder_diff_uses_cache_as_loaded:
  assumes idx: "server_index w (year c) (semester_type c) (semester c) (ID c) = Inr idx"
    and nonempty: "counts idx \<noteq> []"
    and r1: "\<forall>k\<in>set (dict_keys (items (dict_compare (Some (counts idx))
                 (Some (fst (parse_cache (course_path p c) idx (name c) w)))))).
               \<exists>i. get_catID idx k = Inr i"
    and r2: "\<forall>k\<in>set (dict_keys (items (dict_compare
                 (Some (fst (parse_cache (course_path p c) idx (name c) w)))
                 (Some (fst (count_files_in_subfolders (course_path p c) w)))))).
               \<exists>i. get_catID idx k = Inr i"
  shows "\<exists>ts1 ts2.
     fst (search_cats_in_course p c w) = Inr (Some (ts1 @ ts2)) \<and>
     map fst ts1 = dict_keys (items (dict_compare (Some (counts idx))
                     (Some (case cache w (course_path p c) of None \<Rightarrow> [] | Some d \<Rightarrow> d)))) \<and>
     map fst ts2 = dict_keys (items (dict_compare
                     (Some (case cache w (course_path p c) of None \<Rightarrow> [] | Some d \<Rightarrow> d))
                     (Some (inventory w (course_path p c))))) \<and>
     (truthy (dict_compare (Some (counts idx))
               (Some (case cache w (course_path p c) of None \<Rightarrow> [] | Some d \<Rightarrow> d)))
      \<longrightarrow> cache (snd (search_cats_in_course p c w)) (course_path p c) = Some (counts idx))"
proof -
  have old: "fst (parse_cache (course_path p c) idx (name c) w)
               = (case cache w (course_path p c) of None \<Rightarrow> [] | Some d \<Rightarrow> d)"
    by (simp add: parse_cache_def)
  have inv: "fst (count_files_in_subfolders (course_path p c) w) = inventory w (course_path p c)"
    by (simp add: count_files_in_subfolders_def)
  from search_cats_result [OF idx nonempty r1 r2]
  obtain ts1 ts2 where
    "fst (search_cats_in_course p c w) = Inr (Some (ts1 @ ts2))"
    "map fst ts1 = dict_keys (items (dict_compare (Some (counts idx))
                     (Some (fst (parse_cache (course_path p c) idx (name c) w)))))"
    "map fst ts2 = dict_keys (items (dict_compare
                     (Some (fst (parse_cache (course_path p c) idx (name c) w)))
                     (Some (fst (count_files_in_subfolders (course_path p c) w)))))"
    by blast
  then have tasks: "fst (search_cats_in_course p c w) = Inr (Some (ts1 @ ts2)) \<and>
     map fst ts1 = dict_keys (items (dict_compare (Some (counts idx))
                     (Some (case cache w (course_path p c) of None \<Rightarrow> [] | Some d \<Rightarrow> d)))) \<and>
     map fst ts2 = dict_keys (items (dict_compare
                     (Some (case cache w (course_path p c) of None \<Rightarrow> [] | Some d \<Rightarrow> d))
                     (Some (inventory w (course_path p c)))))"
    by (simp add: old inv)
  have "truthy (dict_compare (Some (counts idx))
               (Some (case cache w (course_path p c) of None \<Rightarrow> [] | Some d \<Rightarrow> d)))
      \<longrightarrow> cache (snd (search_cats_in_course p c w)) (course_path p c) = Some (counts idx)"
    using search_cats_cache [OF idx, of p] by (simp add: old)
  with tasks show ?thesis by blast
qed

theorem folder_diff_uses_cache_as_loaded_witness:
  "server_index grown_world ''2024'' ''s'' ''1'' ''11154''
     = Inr (example_index [(''Slides'', 3), (''Exercises'', 1)]) \<and>
   cache grown_world example_path = Some [(''Slides'', 2)] \<and>
   truthy (dict_compare (Some [(''Slides'', 3), (''Exercises'', 1)]) (Some [(''Slides'', 2)])) \<and>
   cache (snd (search_cats_in_course [''CLIP''] example_course grown_world)) example_path
     = Some [(''Slides'', 3), (''Exercises'', 1)] \<and>
   dict_compare (Some [(''Slides'', 2)]) (Some (inventory grown_world example_path)) = Some [] \<and>
   dict_compare (Some [(''Slides'', 3), (''Exercises'', 1)])
     (Some (inventory grown_world example_path)) = Some [(''Slides'', 3), (''Exercises'', 1)] \<and>
   fst (search_cats_in_course [''CLIP''] example_course grown_world)
     = Inr (Some [slides_task, exercises_task])"
  using folder_diff_uses_cache_as_loaded
    [of grown_world example_course "example_index [(''Slides'', 3), (''Exercises'', 1)]" "[''CLIP'']"]
  by (simp add: eval_defs example_defs)


section \<open>Properties of the per-category stage\<close>

lemma local_file_record_event [simp]: "local_file (record_event e w) = local_file w"
  by (simp add: record_event_def)

lemma resolve_files_returns:
  assumes "\<forall>file\<in>set table. \<exists>r. local_file w file (fp @ [category]) = Inr r"
  shows "fst (resolve_files fp category table files w) =
     Inr (files @ List.map_filter
            (\<lambda>file. case local_file w file (fp @ [category]) of
                       Inr (Some f) \<Rightarrow> Some f
                     | _ \<Rightarrow> None) table)"
  using assms
proof (induction table arbitrary: files w)
  case Nil
  show ?case by simp
next
  case (Cons fl table)
  from Cons.prems obtain r where r: "local_file w fl (fp @ [category]) = Inr r" by auto
  let ?w1 = "record_event (GetFile fl (fp @ [category])) w"
  have rest: "\<forall>file\<in>set table. \<exists>r. local_file ?w1 file (fp @ [category]) = Inr r"
    using Cons.prems by simp
  show ?case
  proof (cases r)
    case None
    with r Cons.IH [OF rest, of files] show ?thesis
      by (simp add: get_file_def)
  next
    case (Some f)
    with r Cons.IH [OF rest, of "files @ [f]"] show ?thesis
      by (simp add: get_file_def)
  qed
qed

lemma resolve_files_raises:
  assumes "\<exists>file\<in>set table. \<exists>ex. local_file w file (fp @ [category]) = Inl ex"
  shows "\<exists>ex. fst (resolve_files fp category table files w) = Inl ex"
  using assms
proof (induction table arbitrary: files w)
  case Nil
  then show ?case by simp
next
  case (Cons fl table)
  let ?w1 = "record_event (GetFile fl (fp @ [category])) w"
  show ?case
  proof (cases "local_file w fl (fp @ [category])")
    case (Inl ex)
    then show ?thesis by (simp add: get_file_def)
  next
    case (Inr r)
    with Cons.prems have "\<exists>file\<in>set table. \<exists>ex. local_file ?w1 file (fp @ [category]) = Inl ex"
      by auto
    from Cons.IH [OF this] Inr show ?thesis
      by (cases r) (simp_all add: get_file_def)
  qed
qed

lemma resolve_files_trace:
  "\<exists>t. trace (snd (resolve_files fp category table files w)) = trace w @ t \<and>
       (\<forall>e\<in>set t. \<not> is_stash e)"
proof (induction table arbitrary: files w)
  case Nil
  show ?case by simp
next
  case (Cons fl table)
  let ?w1 = "record_event (GetFile fl (fp @ [category])) w"
  have tr: "trace ?w1 = trace w @ [GetFile fl (fp @ [category])]"
    by (simp add: record_event_def)
  show ?case
  proof (cases "local_file w fl (fp @ [category])")
    case (Inl ex)
    then show ?thesis by (simp add: get_file_def tr)
  next
    case (Inr r)
    obtain t where t: "trace (snd (resolve_files fp category table
                          (case r of None \<Rightarrow> files | Some f \<Rightarrow> files @ [f]) ?w1)) = trace ?w1 @ t"
      "\<forall>e\<in>set t. \<not> is_stash e"
      using Cons.IH by blast
    have "trace (snd (resolve_files fp category (fl # table) files w))
            = trace w @ (GetFile fl (fp @ [category]) # t)"
      using Inr t(1) by (cases r) (simp_all add: get_file_def tr)
    moreover have "\<forall>e\<in>set (GetFile fl (fp @ [category]) # t). \<not> is_stash e"
      using t(2) by simp
    ultimately show ?thesis by blast
  qed
qed

lemma search_files_trace:
  "\<exists>t. trace (snd (search_files_in_category category catID c fp w)) = trace w @ t \<and>
       (\<forall>e\<in>set t. \<not> is_stash e)"
proof (cases "server_docs w (year c) (semester_type c) (semester c) (ID c) catID")
  case (Inl ex)
  then show ?thesis
    by (simp add: search_files_in_category_def search_files_body_def parse_docs_def
        record_event_def)
next
  case (Inr table)
  let ?w1 = "record_event (ParseDocs (year c) (semester_type c) (semester c) (ID c) catID) w"
  obtain t where t: "trace (snd (resolve_files fp category table [] ?w1)) = trace ?w1 @ t"
    "\<forall>e\<in>set t. \<not> is_stash e"
    using resolve_files_trace by blast
  have "snd (search_files_in_category category catID c fp w)
          = snd (resolve_files fp category table [] ?w1)"
    using Inr
    by (simp add: search_files_in_category_def search_files_body_def parse_docs_def
        split: prod.splits sum.splits)
  then have "trace (snd (search_files_in_category category catID c fp w))
          = trace w @ (ParseDocs (year c) (semester_type c) (semester c) (ID c) catID # t)"
    using t(1) by (simp add: record_event_def)
  moreover have "\<forall>e\<in>set (ParseDocs (year c) (semester_type c) (semester c) (ID c) catID # t).
                   \<not> is_stash e"
    using t(2) by simp
  ultimately show ?thesis by blast
qed

text \<open>
  C8. \<open>search_files_in_category\<close> never raises. When the listing of the category
  cannot be read, or the resolution of one of its files raises, the handler catches the
  exception and the function returns \<^verbatim>\<open>None\<close>, which adds nothing to the
  executor's aggregate. When nothing raises it returns the descriptors of the files to
  download, in the order of the listing.
\<close>

theorem search_files_in_category_catches:
  "(\<exists>r. fst (search_files_in_category category catID c fp w) = Inr r) \<and>
   (server_docs w (year c) (semester_type c) (semester c) (ID c) catID = Inl ex \<longrightarrow>
      fst (search_files_in_category category catID c fp w) = Inr None \<and>
      contribution (fst (search_files_in_category category catID c fp w)) = []) \<and>
   (server_docs w (year c) (semester_type c) (semester c) (ID c) catID = Inr table \<and>
    (\<exists>file\<in>set table. \<exists>ex'. local_file w file (fp @ [category]) = Inl ex') \<longrightarrow>
      fst (search_files_in_category category catID c fp w) = Inr None \<and>
      contribution (fst (search_files_in_category category catID c fp w)) = []) \<and>
   (server_docs w (year c) (semester_type c) (semester c) (ID c) catID = Inr table \<and>
    (\<forall>file\<in>set table. \<exists>r. local_file w file (fp @ [category]) = Inr r) \<longrightarrow>
      fst (search_files_in_category category catID c fp w) =
        Inr (Some (List.map_filter
               (\<lambda>file. case local_file w file (fp @ [category]) of
                          Inr (Some f) \<Rightarrow> Some f
                        | _ \<Rightarrow> None) table)))"
proof -
  let ?w1 = "record_event (ParseDocs (year c) (semester_type c) (semester c) (ID c) catID) w"
  have never: "\<exists>r. fst (search_files_in_category category catID c fp w) = Inr r"
    by (simp add: search_files_in_category_def split: prod.splits sum.splits)
  have listing: "fst (search_files_in_category category catID c fp w) = Inr None \<and>
      contribution (fst (search_files_in_category category catID c fp w)) = []"
    if "server_docs w (year c) (semester_type c) (semester c) (ID c) catID = Inl ex"
    using that
    by (simp add: search_files_in_category_def search_files_body_def parse_docs_def
        contribution_def)
  have per_file: "fst (search_files_in_category category catID c fp w) = Inr None \<and>
      contribution (fst (search_files_in_category category catID c fp w)) = []"
    if docs: "server_docs w (year c) (semester_type c) (semester c) (ID c) catID = Inr table"
      and bad: "\<exists>file\<in>set table. \<exists>ex'. local_file w file (fp @ [category]) = Inl ex'"
  proof -
    from bad have "\<exists>file\<in>set table. \<exists>ex'. local_file ?w1 file (fp @ [category]) = Inl ex'"
      by simp
    from resolve_files_raises [OF this]
    obtain ex' where "fst (resolve_files fp category table [] ?w1) = Inl ex'" by blast
    then obtain w2 where "resolve_files fp category table [] ?w1 = (Inl ex', w2)"
      by (cases "resolve_files fp category table [] ?w1") simp
    with docs show ?thesis
      by (simp add: search_files_in_category_def search_files_body_def parse_docs_def
          contribution_def)
  qed
  have good: "fst (search_files_in_category category catID c fp w) =
        Inr (Some (List.map_filter
               (\<lambda>file. case local_file w file (fp @ [category]) of
                          Inr (Some f) \<Rightarrow> Some f
                        | _ \<Rightarrow> None) table))"
    if docs: "server_docs w (year c) (semester_type c) (semester c) (ID c) catID = Inr table"
      and ok: "\<forall>file\<in>set table. \<exists>r. local_file w file (fp @ [category]) = Inr r"
  proof -
    from ok have "\<forall>file\<in>set table. \<exists>r. local_file ?w1 file (fp @ [category]) = Inr r"
      by simp
    from resolve_files_returns [OF this, of "[]"]
    obtain w2 where "resolve_files fp category table [] ?w1 =
        (Inr (List.map_filter
               (\<lambda>file. case local_file w file (fp @ [category]) of
                          Inr (Some f) \<Rightarrow> Some f
                        | _ \<Rightarrow> None) table), w2)"
      by (cases "resolve_files fp category table [] ?w1") simp
    with docs show ?thesis
      by (simp add: search_files_in_category_def search_files_body_def parse_docs_def)
  qed
  from never listing per_file good show ?thesis by blast
qed


theorem search_files_in_category_catches_witness:
  "server_docs broken_listing_world ''2024'' ''s'' ''1'' ''11154'' ''id-Slides''
     = Inl (Error ''timeout'') \<and>
   fst (search_files_in_category ''Slides'' ''id-Slides'' example_course example_path
          broken_listing_world) = Inr None \<and>
   server_docs broken_file_world ''2024'' ''s'' ''1'' ''11154'' ''id-Slides''
     = Inr [''id-Slides/a.pdf'', ''id-Slides/b.pdf''] \<and>
   local_file broken_file_world ''id-Slides/b.pdf'' (example_path @ [''Slides''])
     = Inl (Error ''unreadable'') \<and>
   fst (search_files_in_category ''Slides'' ''id-Slides'' example_course example_path
          broken_file_world) = Inr None \<and>
   fst (search_files_in_category ''Slides'' ''id-Slides'' example_course example_path
          drift_world)
     = Inr (Some [(example_path @ [''Slides'', ''id-Slides/a.pdf''], ''id-Slides/a.pdf'', 10, 0),
                  (example_path @ [''Slides'', ''id-Slides/b.pdf''], ''id-Slides/b.pdf'', 10, 0)])"
  using search_files_in_category_catches
      [where w = broken_listing_world and c = example_course and catID = "''id-Slides''"
         and category = "''Slides''" and fp = example_path and ex = "Error ''timeout''"
         and table = "[]"]
    search_files_in_category_catches
      [where w = broken_file_world and c = example_course and catID = "''id-Slides''"
         and category = "''Slides''" and fp = example_path and ex = "Error ''timeout''"
         and table = "[''id-Slides/a.pdf'', ''id-Slides/b.pdf'']"]
    search_files_in_category_catches
      [where w = drift_world and c = example_course and catID = "''id-Slides''"
         and category = "''Slides''" and fp = example_path and ex = "Error ''timeout''"
         and table = "[''id-Slides/a.pdf'', ''id-Slides/b.pdf'']"]
  by (simp add: example_defs broken_listing_world_def broken_file_world_def)

section \<open>The order of the stages\<close>

lemma run_workers_trace:
  assumes step: "\<And>a w. \<exists>t. trace (snd (worker a w)) = trace w @ t \<and> (\<forall>e\<in>set t. Q e)"
  shows "\<exists>t. trace (snd (run_workers worker its w)) = trace w @ t \<and> (\<forall>e\<in>set t. Q e)"
proof (induction its arbitrary: w)
  case Nil
  show ?case by simp
next
  case (Cons a its)
  obtain res w1 where w1: "worker a w = (res, w1)" by (cases "worker a w")
  obtain futures w2 where w2: "run_workers worker its w1 = (futures, w2)"
    by (cases "run_workers worker its w1")
  from step [of a w] w1 obtain t1 where t1: "trace w1 = trace w @ t1" "\<forall>e\<in>set t1. Q e"
    by auto
  from Cons.IH [of w1] w2 obtain t2 where t2: "trace w2 = trace w1 @ t2" "\<forall>e\<in>set t2. Q e"
    by auto
  have "trace (snd (run_workers worker (a # its) w)) = trace w @ (t1 @ t2)"
    by (simp add: w1 w2 t1(1) t2(1))
  moreover have "\<forall>e\<in>set (t1 @ t2). Q e"
    using t1(2) t2(2) by auto
  ultimately show ?case by blast
qed

lemma threadpool_execute_trace:
  assumes step: "\<And>a w. \<exists>t. trace (snd (worker a w)) = trace w @ t \<and> (\<forall>e\<in>set t. Q e)"
  shows "\<exists>t. trace (snd (threadpool_execute worker its max_workers started completed w))
               = trace w @ t \<and> (\<forall>e\<in>set t. Q e)"
proof (cases "max_workers \<le> 0")
  case True
  then show ?thesis by (simp add: threadpool_execute_def)
next
  case False
  obtain futures w1 where run: "run_workers worker (arrange started its) w = (futures, w1)"
    by (cases "run_workers worker (arrange started its) w")
  have "snd (threadpool_execute worker its max_workers started completed w) = w1"
    using False by (simp add: threadpool_execute_def run collect_closed)
  moreover from run_workers_trace [of worker Q "arrange started its" w, OF step] run
  have "\<exists>t. trace w1 = trace w @ t \<and> (\<forall>e\<in>set t. Q e)" by simp
  ultimately show ?thesis by simp
qed

lemma search_cats_no_fetch:
  "\<exists>t. trace (snd ((\<lambda>(p', c). search_cats_in_course p' c) a w)) = trace w @ t \<and>
       (\<forall>e\<in>set t. \<not> is_fetch e)"
proof -
  obtain p c where a: "a = (p, c)" by (cases a)
  from search_cats_trace [of p c w] show ?thesis by (auto simp: a)
qed

lemma search_files_no_stash:
  "\<exists>t. trace (snd ((\<lambda>(category, catID, c, full_path).
                        search_files_in_category category catID c full_path) a w)) = trace w @ t \<and>
       (\<forall>e\<in>set t. \<not> is_stash e)"
proof -
  obtain category catID c fp where a: "a = (category, catID, c, fp)" by (cases a)
  from search_files_trace [of category catID c fp w] show ?thesis by (simp add: a)
qed

lemma download_no_stash:
  "\<exists>t. trace (snd (download_file f w)) = trace w @ t \<and> (\<forall>e\<in>set t. \<not> is_stash e)"
  by (simp add: download_file_def record_event_def)

lemma main_stages_trace:
  "\<exists>t1 t2.
     trace (snd (threadpool_execute (\<lambda>(p', c). search_cats_in_course p' c)
                   (map (\<lambda>c. (p, c)) courses) MAX_THREADS (started1 sch) (completed1 sch) w))
       = trace w @ t1 \<and>
     trace (snd (main_stages MAX_THREADS sch p courses w)) = trace w @ t1 @ t2 \<and>
     (\<forall>e\<in>set t1. \<not> is_fetch e) \<and> (\<forall>e\<in>set t2. \<not> is_stash e)"
proof -
  let ?s1 = "threadpool_execute (\<lambda>(p', c). search_cats_in_course p' c)
               (map (\<lambda>c. (p, c)) courses) MAX_THREADS (started1 sch) (completed1 sch) w"
  obtain r1 w1 where s1: "?s1 = (r1, w1)" by (cases ?s1)
  from threadpool_execute_trace [of "\<lambda>(p', c). search_cats_in_course p' c"
        "\<lambda>e. \<not> is_fetch e", OF search_cats_no_fetch,
        of "map (\<lambda>c. (p, c)) courses" MAX_THREADS "started1 sch" "completed1 sch" w] s1
  obtain t1 where t1: "trace w1 = trace w @ t1" "\<forall>e\<in>set t1. \<not> is_fetch e" by auto
  have "\<exists>t2. trace (snd (main_stages MAX_THREADS sch p courses w)) = trace w1 @ t2 \<and>
             (\<forall>e\<in>set t2. \<not> is_stash e)"
  proof (cases r1)
    case (Inl e)
    then show ?thesis by (simp add: main_stages_def s1)
  next
    case (Inr res1)
    obtain subcats rep1 calls1 where res1: "res1 = (subcats, rep1, calls1)" by (cases res1)
    let ?s2 = "threadpool_execute
                 (\<lambda>(category, catID, c, full_path).
                     search_files_in_category category catID c full_path)
                 subcats MAX_THREADS (started2 sch) (completed2 sch) w1"
    obtain r2 w2 where s2: "?s2 = (r2, w2)" by (cases ?s2)
    from threadpool_execute_trace [of "\<lambda>(category, catID, c, full_path).
                     search_files_in_category category catID c full_path"
          "\<lambda>e. \<not> is_stash e", OF search_files_no_stash,
          of subcats MAX_THREADS "started2 sch" "completed2 sch" w1] s2
    obtain t2 where t2: "trace w2 = trace w1 @ t2" "\<forall>e\<in>set t2. \<not> is_stash e" by auto
    show ?thesis
    proof (cases r2)
      case (Inl e)
      with Inr res1 t2 show ?thesis by (simp add: main_stages_def s1 s2)
    next
      case r2: (Inr res2)
      obtain files rep2 calls2 where res2: "res2 = (files, rep2, calls2)" by (cases res2)
      let ?s3 = "if files \<noteq> []
                 then threadpool_execute download_file files 4
                        (started3 sch) (completed3 sch) w2
                 else (Inr ([], [], []), w2)"
      obtain r3 w3 where s3: "?s3 = (r3, w3)" by (cases ?s3)
      from threadpool_execute_trace [of download_file "\<lambda>e. \<not> is_stash e", OF download_no_stash,
            of files 4 "started3 sch" "completed3 sch" w2]
      obtain t3' where "trace (snd (threadpool_execute download_file files 4
                        (started3 sch) (completed3 sch) w2)) = trace w2 @ t3'"
        "\<forall>e\<in>set t3'. \<not> is_stash e" by auto
      with s3 obtain t3 where t3: "trace w3 = trace w2 @ t3" "\<forall>e\<in>set t3. \<not> is_stash e"
        by (cases "files \<noteq> []") auto
      have w': "snd (main_stages MAX_THREADS sch p courses w) =
                  (case r3 of Inl e \<Rightarrow> w3 | Inr x \<Rightarrow> commit_cache w3)"
        using Inr res1 r2 res2 s3
        by (simp add: main_stages_def s1 s2 split: sum.splits)
      show ?thesis
      proof (cases r3)
        case (Inl e)
        have "trace (snd (main_stages MAX_THREADS sch p courses w)) = trace w1 @ (t2 @ t3)"
          using Inl w' t2(1) t3(1) by simp
        moreover have "\<forall>e\<in>set (t2 @ t3). \<not> is_stash e" using t2(2) t3(2) by auto
        ultimately show ?thesis by blast
      next
        case (Inr x)
        have "trace (snd (main_stages MAX_THREADS sch p courses w))
                = trace w1 @ (t2 @ t3 @ [CommitCache])"
          using Inr w' t2(1) t3(1) by (simp add: commit_cache_def record_event_def)
        moreover have "\<forall>e\<in>set (t2 @ t3 @ [CommitCache]). \<not> is_stash e"
          using t2(2) t3(2) by auto
        ultimately show ?thesis by blast
      qed
    qed
  qed
  then obtain t2 where "trace (snd (main_stages MAX_THREADS sch p courses w)) = trace w1 @ t2"
    "\<forall>e\<in>set t2. \<not> is_stash e" by blast
  with t1 s1 show ?thesis by auto
qed


text \<open>
  C5. In the per-course stage the persisted record is overwritten with the live index,
  by one call of \<open>stash_cache\<close>, exactly when the server diff is not empty; otherwise,
  and when the index cannot be read, the record is left as it was. The stage makes no
  call that lists or fetches files. In a run, every event of the first pool comes
  before every event of the later pools, and the later pools never stage the cache: a
  staging write precedes every listing, file resolution and download.
\<close>

theorem stash_iff_server_diff_and_before_fetch:
  "(server_index w (year c) (semester_type c) (semester c) (ID c) = Inr idx \<longrightarrow>
      filter is_stash (new_events w (snd (search_cats_in_course p c w)))
        = (if truthy (dict_compare (Some (counts idx))
                       (Some (fst (parse_cache (course_path p c) idx (name c) w))))
           then [StashCache (course_path p c) (counts idx)] else []) \<and>
      cache (snd (search_cats_in_course p c w))
        = (if truthy (dict_compare (Some (counts idx))
                       (Some (fst (parse_cache (course_path p c) idx (name c) w))))
           then (cache w)(course_path p c \<mapsto> counts idx) else cache w)) \<and>
   (server_index w (year c) (semester_type c) (semester c) (ID c) = Inl ex \<longrightarrow>
      filter is_stash (new_events w (snd (search_cats_in_course p c w))) = [] \<and>
      cache (snd (search_cats_in_course p c w)) = cache w) \<and>
   (\<forall>e\<in>set (new_events w (snd (search_cats_in_course p c w))). \<not> is_fetch e) \<and>
   (\<exists>t1 t2.
      trace (snd (threadpool_execute (\<lambda>(p', c). search_cats_in_course p' c)
                    (map (\<lambda>c. (p, c)) courses) MAX_THREADS (started1 sch) (completed1 sch) w))
        = trace w @ t1 \<and>
      trace (snd (main_stages MAX_THREADS sch p courses w)) = trace w @ t1 @ t2 \<and>
      (\<forall>e\<in>set t1. \<not> is_fetch e) \<and> (\<forall>e\<in>set t2. \<not> is_stash e))"
proof -
  obtain t where t: "trace (snd (search_cats_in_course p c w)) = trace w @ t"
    "\<forall>e\<in>set t. \<not> is_fetch e"
    "filter is_stash t =
         (case server_index w (year c) (semester_type c) (semester c) (ID c) of
            Inl e \<Rightarrow> []
          | Inr idx \<Rightarrow>
              if truthy (dict_compare (Some (counts idx))
                           (Some (fst (parse_cache (course_path p c) idx (name c) w))))
              then [StashCache (course_path p c) (counts idx)] else [])"
    using search_cats_trace [of p c w] by blast
  have new: "new_events w (snd (search_cats_in_course p c w)) = t"
    by (simp add: new_events_def t(1))
  have a: "server_index w (year c) (semester_type c) (semester c) (ID c) = Inr idx \<longrightarrow>
      filter is_stash (new_events w (snd (search_cats_in_course p c w)))
        = (if truthy (dict_compare (Some (counts idx))
                       (Some (fst (parse_cache (course_path p c) idx (name c) w))))
           then [StashCache (course_path p c) (counts idx)] else []) \<and>
      cache (snd (search_cats_in_course p c w))
        = (if truthy (dict_compare (Some (counts idx))
                       (Some (fst (parse_cache (course_path p c) idx (name c) w))))
           then (cache w)(course_path p c \<mapsto> counts idx) else cache w)"
  proof
    assume idx: "server_index w (year c) (semester_type c) (semester c) (ID c) = Inr idx"
    from t(3) idx search_cats_cache [OF idx, of p] show
      "filter is_stash (new_events w (snd (search_cats_in_course p c w)))
        = (if truthy (dict_compare (Some (counts idx))
                       (Some (fst (parse_cache (course_path p c) idx (name c) w))))
           then [StashCache (course_path p c) (counts idx)] else []) \<and>
      cache (snd (search_cats_in_course p c w))
        = (if truthy (dict_compare (Some (counts idx))
                       (Some (fst (parse_cache (course_path p c) idx (name c) w))))
           then (cache w)(course_path p c \<mapsto> counts idx) else cache w)"
      by (simp add: new)
  qed
  have b: "server_index w (year c) (semester_type c) (semester c) (ID c) = Inl ex \<longrightarrow>
      filter is_stash (new_events w (snd (search_cats_in_course p c w))) = [] \<and>
      cache (snd (search_cats_in_course p c w)) = cache w"
    using t(3) search_cats_failed_index [of w c ex p] by (simp add: new)
  have c: "\<forall>e\<in>set (new_events w (snd (search_cats_in_course p c w))). \<not> is_fetch e"
    using t(2) by (simp add: new)
  from a b c main_stages_trace [of p courses MAX_THREADS sch w] show ?thesis
    by blast
qed

lemmas pipeline_defs =
  main_stages_def threadpool_execute_def search_files_in_category_def search_files_body_def
  example_scheduling_def

theorem stash_iff_server_diff_and_before_fetch_witness:
  "server_index drift_world ''2024'' ''s'' ''1'' ''11154'' = Inr (example_index [(''Slides'', 3)]) \<and>
   truthy (dict_compare (Some [(''Slides'', 3)]) (Some [(''Slides'', 2)])) \<and>
   cache (snd (search_cats_in_course [''CLIP''] example_course drift_world)) example_path
     = Some [(''Slides'', 3)] \<and>
   server_index offline_world ''2024'' ''s'' ''1'' ''11154'' = Inl (Error ''offline'') \<and>
   cache (snd (search_cats_in_course [''CLIP''] example_course offline_world)) example_path
     = Some [(''Slides'', 2)] \<and>
   trace (snd (search_cats_in_course [''CLIP''] example_course offline_world))
     = [ParseIndex ''2024'' ''s'' ''1'' ''11154''] \<and>
   \<not> truthy (dict_compare (Some [(''Slides'', 3)]) (Some [(''Slides'', 3)])) \<and>
   trace (snd (search_cats_in_course [''CLIP''] example_course deleted_world))
     = [ParseIndex ''2024'' ''s'' ''1'' ''11154'', Mkdir example_path, ParseCache example_path,
        CountFiles example_path] \<and>
   trace (snd (main_stages 8 example_scheduling [''CLIP''] [example_course] drift_world))
     = [ParseIndex ''2024'' ''s'' ''1'' ''11154'', Mkdir example_path, ParseCache example_path,
        StashCache example_path [(''Slides'', 3)], CountFiles example_path] @
       [ParseDocs ''2024'' ''s'' ''1'' ''11154'' ''id-Slides'',
        GetFile ''id-Slides/a.pdf'' (example_path @ [''Slides'']),
        GetFile ''id-Slides/b.pdf'' (example_path @ [''Slides'']),
        ParseDocs ''2024'' ''s'' ''1'' ''11154'' ''id-Slides'',
        GetFile ''id-Slides/a.pdf'' (example_path @ [''Slides'']),
        GetFile ''id-Slides/b.pdf'' (example_path @ [''Slides'']),
        DownloadFile (example_path @ [''Slides'', ''id-Slides/a.pdf''], ''id-Slides/a.pdf'', 10, 0),
        DownloadFile (example_path @ [''Slides'', ''id-Slides/b.pdf''], ''id-Slides/b.pdf'', 10, 0),
        DownloadFile (example_path @ [''Slides'', ''id-Slides/a.pdf''], ''id-Slides/a.pdf'', 10, 0),
        DownloadFile (example_path @ [''Slides'', ''id-Slides/b.pdf''], ''id-Slides/b.pdf'', 10, 0),
        CommitCache]"
  using stash_iff_server_diff_and_before_fetch
    [of drift_world example_course "example_index [(''Slides'', 3)]" "[''CLIP'']"
        "Error ''offline''" "[example_course]" 8 example_scheduling]
    stash_iff_server_diff_and_before_fetch
    [of offline_world example_course "example_index [(''Slides'', 3)]" "[''CLIP'']"
        "Error ''offline''" "[example_course]" 8 example_scheduling]
    stash_iff_server_diff_and_before_fetch
    [of deleted_world example_course "example_index [(''Slides'', 3)]" "[''CLIP'']"
        "Error ''offline''" "[example_course]" 8 example_scheduling]
  by (simp add: eval_defs example_defs offline_world_def pipeline_defs try_result_def)


section \<open>The login loop\<close>

lemma login_loop_returns_from:
  assumes "\<forall>k. m \<le> k \<and> k < n \<longrightarrow> get_login k u pw = Inl LoginError"
    and "m \<le> n" and "get_login n u pw \<noteq> Inl LoginError"
  shows "login_loop get_login u pw m = Some (get_login n u pw, Suc n)"
  using assms
proof (induction "n - m" arbitrary: m)
  case 0
  then have "m = n" by simp
  with "0.prems"(3) show ?case
    by (subst login_loop.simps) (auto split: sum.splits)
next
  case (Suc d)
  then have lt: "m < n" by simp
  with Suc.prems(1) have fail: "get_login m u pw = Inl LoginError" by simp
  have "login_loop get_login u pw (Suc m) = Some (get_login n u pw, Suc n)"
  proof (rule Suc.hyps(1))
    show "d = n - Suc m" using Suc.hyps(2) by simp
    show "\<forall>k. Suc m \<le> k \<and> k < n \<longrightarrow> get_login k u pw = Inl LoginError"
      using Suc.prems(1) by simp
    show "Suc m \<le> n" using lt by simp
    show "get_login n u pw \<noteq> Inl LoginError" by (rule Suc.prems(3))
  qed
  then show ?case
    by (subst login_loop.simps) (simp add: fail)
qed

lemma login_loop_never_returns:
  assumes "\<forall>k. get_login k u pw = Inl LoginError"
  shows "login_loop get_login u pw m = None"
proof (rule ccontr)
  assume "login_loop get_login u pw m \<noteq> None"
  then obtain y where y: "login_loop get_login u pw m = Some y" by auto
  have "(\<forall>k. get_login k u pw = Inl LoginError) \<longrightarrow> False"
  proof (rule login_loop.raw_induct
      [where P = "\<lambda>g a b n r. (\<forall>k. g k a b = Inl LoginError) \<longrightarrow> False", OF _ y])
    fix lp :: "(nat \<Rightarrow> string option \<Rightarrow> string option \<Rightarrow> exn + 'a) \<Rightarrow> string option \<Rightarrow>
                 string option \<Rightarrow> nat \<Rightarrow> ((exn + 'a) \<times> nat) option"
      and g a b n r
    assume IH: "\<And>g a b n r. lp g a b n = Some r \<Longrightarrow> (\<forall>k. g k a b = Inl LoginError) \<longrightarrow> False"
      and step: "(case g n a b of
                    Inl e \<Rightarrow> if e = LoginError then lp g a b (Suc n) else Some (Inl e, Suc n)
                  | Inr user \<Rightarrow> Some (Inr user, Suc n)) = Some r"
    show "(\<forall>k. g k a b = Inl LoginError) \<longrightarrow> False"
    proof
      assume all: "\<forall>k. g k a b = Inl LoginError"
      with step have "lp g a b (Suc n) = Some r" by simp
      from IH [OF this] all show False by simp
    qed
  qed
  with assms show False by simp
qed

lemma main_login_args:
  "main_login username force_relogin cfg_username cfg_password get_login =
     login_loop get_login
       (fst (login_args username force_relogin cfg_username cfg_password))
       (snd (login_args username force_relogin cfg_username cfg_password)) 0"
  by (simp add: main_login_def login_args_def)

text \<open>
  C9, as stated, fails: the loop has no bound. With a login that rejects every attempt
  it never leaves the loop, so there is no number of failed attempts after which it
  ends with a failure.
\<close>

theorem login_never_gives_up_counterexample:
  "main_login None False None None rejecting_login = None"
  by (simp add: main_login_def login_loop_never_returns rejecting_login_def)

text \<open>
  C9, amended. The login loop retries after every \<open>LoginError\<close>, without a bound. It
  ends at the first attempt that does not raise \<open>LoginError\<close>, after exactly that many
  calls, with that attempt's outcome: the session, or another exception, which leaves
  the loop. When every attempt raises \<open>LoginError\<close> it never ends.
\<close>

theorem login_retries_until_accepted:
  "((\<forall>k<n. get_login k (fst (login_args username force_relogin cfg_username cfg_password))
                       (snd (login_args username force_relogin cfg_username cfg_password))
              = Inl LoginError) \<and>
    get_login n (fst (login_args username force_relogin cfg_username cfg_password))
                (snd (login_args username force_relogin cfg_username cfg_password))
      \<noteq> Inl LoginError \<longrightarrow>
    main_login username force_relogin cfg_username cfg_password get_login =
      Some (get_login n (fst (login_args username force_relogin cfg_username cfg_password))
                        (snd (login_args username force_relogin cfg_username cfg_password)),
            Suc n)) \<and>
   ((\<forall>k. get_login k (fst (login_args username force_relogin cfg_username cfg_password))
                     (snd (login_args username force_relogin cfg_username cfg_password))
            = Inl LoginError) \<longrightarrow>
    main_login username force_relogin cfg_username cfg_password get_login = None)"
proof -
  let ?u = "fst (login_args username force_relogin cfg_username cfg_password)"
  let ?pw = "snd (login_args username force_relogin cfg_username cfg_password)"
  have a: "login_loop get_login ?u ?pw 0 = Some (get_login n ?u ?pw, Suc n)"
    if "\<forall>k<n. get_login k ?u ?pw = Inl LoginError" "get_login n ?u ?pw \<noteq> Inl LoginError"
    using that by (intro login_loop_returns_from) simp_all
  have b: "login_loop get_login ?u ?pw 0 = None"
    if "\<forall>k. get_login k ?u ?pw = Inl LoginError"
    using that by (rule login_loop_never_returns)
  from a b show ?thesis
    unfolding main_login_args by blast
qed

theorem login_retries_until_accepted_witness:
  "third_time_login 0 (Some ''ab'') None = Inl LoginError \<and>
   third_time_login 1 (Some ''ab'') None = Inl LoginError \<and>
   main_login (Some ''ab'') False None None third_time_login = Some (Inr ''session'', 3) \<and>
   main_login None True (Some ''cd'') (Some ''pw'') rejecting_login = None"
  using login_retries_until_accepted
      [of 2 third_time_login "Some ''ab''" False None None]
    login_retries_until_accepted
      [of 0 rejecting_login None True "Some ''cd''" "Some ''pw''"]
  by (simp add: third_time_login_def rejecting_login_def login_args_def)


end
